theory Spec2Isabelle
  imports Main "HOL-Library.Char_ord" "HOL-Library.List_Lexorder"
begin

section \<open>The local store of GateMiniCRM\<close>

text \<open>
  The program keeps one SQLite store per installation. \<^verbatim>\<open>init_db\<close> creates the table
  \<^verbatim>\<open>settings(key TEXT PRIMARY KEY, value TEXT)\<close> and seven business tables, each with
  the column \<^verbatim>\<open>id INTEGER PRIMARY KEY AUTOINCREMENT\<close>. A cell holds NULL, a text or an
  integer; the REAL columns are written only by forms that are not modelled here.
\<close>

datatype sqlval = Null | Text string | Integer int

text \<open>
  A row of a business table is its \<^verbatim>\<open>id\<close> and the columns a statement supplied; a
  column the statement left out holds its schema default and is read by no definition
  below. A table also carries the counter SQLite keeps in \<^verbatim>\<open>sqlite_sequence\<close> for an
  AUTOINCREMENT column: the largest id the table ever held.
\<close>

type_synonym cols = "(string \<times> sqlval) list"

type_synonym row = "nat \<times> cols"

record table =
  rows :: "row list"
  seq :: nat

text \<open>
  A statement that changes a business table: the table's name, the id of the row and,
  for INSERT and UPDATE, the columns written.
\<close>

datatype mutation = Ins string nat cols | Upd string nat cols | Del string nat

text \<open>
  The connection. The settings table is a map from key to value (the column is
  nullable, so a stored value is \<open>None\<close> for NULL); the business tables are found by
  name. The forms of the program run their SQL directly and call nothing else, so
  whatever records a change can only be attached to the connection itself, by
  \<^verbatim>\<open>ensure_change_tracking(conn)\<close> of the external module \<^verbatim>\<open>gate_sync\<close> at startup.
  That module is not part of the sources: \<open>tracking\<close> is what it attached, if anything
  (the entries it logs for a statement), and \<open>change_log\<close> is the log those entries are
  appended to. \<^verbatim>\<open>init_db\<close> attaches nothing.
\<close>

record conn =
  settings :: "string \<rightharpoonup> string option"
  tables :: "string \<Rightarrow> table"
  change_log :: "mutation list"
  tracking :: "(mutation \<Rightarrow> mutation list) option"

definition empty_table :: table where
  "empty_table = \<lparr>rows = [], seq = 0\<rparr>"

text \<open>The store \<^verbatim>\<open>init_db\<close> creates on first run: every table exists and is empty.\<close>

definition init_db :: conn where
  "init_db = \<lparr>settings = Map.empty, tables = (\<lambda>_. empty_table), change_log = [],
     tracking = None\<rparr>"

subsection \<open>Settings\<close>

text \<open>
  \<^verbatim>\<open>get_setting\<close>: \<^verbatim>\<open>SELECT value FROM settings WHERE key=?\<close>, then
  \<^verbatim>\<open>r[0] if r else None\<close>: no row gives None, a row gives its value (None when NULL).
\<close>

definition get_setting :: "conn \<Rightarrow> string \<Rightarrow> string option" where
  "get_setting c k = (case settings c k of None \<Rightarrow> None | Some r \<Rightarrow> r)"

text \<open>
  \<^verbatim>\<open>set_setting\<close>: \<^verbatim>\<open>REPLACE INTO settings(key,value) VALUES(?,?)\<close> and commit. The key
  is the primary key, so REPLACE removes the row of that key, if any, and inserts the
  new one.
\<close>

definition set_setting :: "conn \<Rightarrow> string \<Rightarrow> string \<Rightarrow> conn" where
  "set_setting c k v = c\<lparr>settings := (settings c)(k \<mapsto> Some v)\<rparr>"

text \<open>A run of \<^verbatim>\<open>set_setting\<close> calls, in order.\<close>

fun set_settings :: "conn \<Rightarrow> (string \<times> string) list \<Rightarrow> conn" where
  "set_settings c [] = c"
| "set_settings c ((k, v) # kvs) = set_settings (set_setting c k v) kvs"

subsection \<open>Python strings\<close>



text \<open>
  Truthiness of an \<^verbatim>\<open>Optional[str]\<close>: None and the empty string are false.
  \<open>py_or a b\<close> is \<^verbatim>\<open>a or b\<close>, and \<open>or_empty a\<close> is \<^verbatim>\<open>a or ''\<close>.
\<close>

definition truthy :: "string option \<Rightarrow> bool" where
  "truthy a = (case a of None \<Rightarrow> False | Some s \<Rightarrow> s \<noteq> [])"


definition or_empty :: "string option \<Rightarrow> string" where
  "or_empty a = (case a of None \<Rightarrow> [] | Some s \<Rightarrow> s)"

subsection \<open>SQL statements on the business tables\<close>

text \<open>
  After a statement on a business table has run, the tracking attached to the
  connection, if any, appends its entries for the statement to the log; which entries,
  also for a statement that matched no row, is the tracking's to decide. With none
  attached the log stays as it is.
\<close>

definition track :: "mutation \<Rightarrow> conn \<Rightarrow> conn" where
  "track m c = (case tracking c of None \<Rightarrow> c
     | Some h \<Rightarrow> c\<lparr>change_log := change_log c @ h m\<rparr>)"

text \<open>
  The id an INSERT assigns under AUTOINCREMENT: one more than the largest id the table
  has ever held (the \<^verbatim>\<open>sqlite_sequence\<close> counter, or a larger id present in the table).
\<close>

definition next_rowid :: "table \<Rightarrow> nat" where
  "next_rowid t = Suc (max (seq t) (fold max (map fst (rows t)) 0))"

text \<open>
  \<^verbatim>\<open>INSERT INTO tn(...) VALUES(...)\<close>; the result carries \<^verbatim>\<open>cur.lastrowid\<close>.
\<close>

definition sql_insert :: "string \<Rightarrow> cols \<Rightarrow> conn \<Rightarrow> nat \<times> conn" where
  "sql_insert tn cs c =
     (let t = tables c tn; i = next_rowid t
      in (i, track (Ins tn i cs)
               (c\<lparr>tables := (tables c)(tn := \<lparr>rows = rows t @ [(i, cs)], seq = i\<rparr>)\<rparr>)))"




section \<open>CSV import\<close>











section \<open>The passcode gate\<close>

text \<open>
  \<^verbatim>\<open>hash_pass\<close>: the SHA-256 hex digest of the UTF-8 bytes of \<^verbatim>\<open>salt + passcode\<close>. The
  digest function is a parameter.
\<close>

definition hash_pass :: "(string \<Rightarrow> string) \<Rightarrow> string \<Rightarrow> string \<Rightarrow> string" where
  "hash_pass sha256_hex passcode salt = sha256_hex (salt @ passcode)"

text \<open>
  The user is the answers given to the dialogs: \<open>ask i\<close> is what the \<open>i\<close>-th
  \<^verbatim>\<open>askstring\<close> dialog returns, None when it is cancelled.

  The loop \<^verbatim>\<open>while True\<close> that creates a passcode, from the \<open>i\<close>-th dialog on: it ends
  with None when the first dialog of a round is cancelled and with the passcode when
  the confirmation equals it; a round whose confirmation differs (or is cancelled)
  starts the next round. A user who never does either keeps the loop running.
\<close>

partial_function (option) create_passcode :: "(nat \<Rightarrow> string option) \<Rightarrow> nat \<Rightarrow> string option option" where
  "create_passcode ask i =
     (case ask i of
        None \<Rightarrow> Some None
      | Some p1 \<Rightarrow> (if ask (Suc i) \<noteq> Some p1 then create_passcode ask (Suc (Suc i))
                    else Some (Some p1)))"

text \<open>
  The loop \<^verbatim>\<open>for _ in range(3)\<close> that asks for the passcode, with \<open>n\<close> rounds left and
  \<open>i\<close> dialogs shown so far. The result is the value returned and the number of dialogs
  shown.
\<close>

fun enter_passcode ::
  "(string \<Rightarrow> string) \<Rightarrow> string \<Rightarrow> string \<Rightarrow> (nat \<Rightarrow> string option) \<Rightarrow> nat \<Rightarrow> nat \<Rightarrow> bool \<times> nat" where
  "enter_passcode H salt stored ask 0 i = (False, i)"
| "enter_passcode H salt stored ask (Suc n) i =
     (case ask i of
        None \<Rightarrow> (False, Suc i)
      | Some entered \<Rightarrow> (if hash_pass H entered salt = stored then (True, Suc i)
                         else enter_passcode H salt stored ask n (Suc i)))"

text \<open>
  \<^verbatim>\<open>ensure_passcode(conn, root)\<close>. \<open>token\<close> is the salt \<^verbatim>\<open>secrets.token_hex(8)\<close> draws and
  \<open>yes\<close> the answer to "Set a passcode to open the app?". The result is None when the
  function never returns, and otherwise the value returned, the connection and the
  number of "Enter passcode" dialogs shown.
\<close>

definition ensure_passcode ::
  "(string \<Rightarrow> string) \<Rightarrow> string \<Rightarrow> bool \<Rightarrow> (nat \<Rightarrow> string option) \<Rightarrow> conn \<Rightarrow> (bool \<times> conn \<times> nat) option" where
  "ensure_passcode H token yes ask c =
     (let stored = get_setting c ''pass_hash''
      in if \<not> truthy stored then
           (if yes then
              (case create_passcode ask 0 of
                 None \<Rightarrow> None
               | Some None \<Rightarrow> Some (True, c, 0)
               | Some (Some p1) \<Rightarrow>
                   Some (True,
                         set_setting (set_setting c ''pass_salt'' token) ''pass_hash''
                           (hash_pass H p1 token),
                         0))
            else Some (True, c, 0))
         else (let salt = or_empty (get_setting c ''pass_salt'');
                   (b, n) = enter_passcode H salt (or_empty stored) ask 3 0
               in Some (b, c, n)))"

text \<open>
  A user who gives the listed answers, one for each dialog, and cancels every dialog
  after them.
\<close>

definition answers :: "string option list \<Rightarrow> nat \<Rightarrow> string option" where
  "answers xs i = (if i < length xs then xs ! i else None)"

text \<open>
  A stand-in for the digest in concrete runs: like a hex digest it is never empty and
  it tells the strings used below apart.
\<close>

definition toy_digest :: "string \<Rightarrow> string" where
  "toy_digest s = CHR ''h'' # rev s"

section \<open>The forms\<close>







section \<open>The optional module gate\_sync\<close>

text \<open>
  The four functions the program imports from \<^verbatim>\<open>gate_sync\<close>. The module is not part of
  the sources, so each is a parameter: what it does to the connection.
\<close>

record gate_sync =
  gs_ensure_change_tracking :: "conn \<Rightarrow> conn"
  gs_export_changes_dialog :: "conn \<Rightarrow> conn"
  gs_import_pack_dialog :: "conn \<Rightarrow> conn"
  gs_init_device_settings_dialog :: "conn \<Rightarrow> conn"

text \<open>The four module-level names of the program after its \<^verbatim>\<open>try\<close> block.\<close>

record sync_names =
  ensure_change_tracking :: "(conn \<Rightarrow> conn) option"
  export_changes_dialog :: "(conn \<Rightarrow> conn) option"
  import_pack_dialog :: "(conn \<Rightarrow> conn) option"
  init_device_settings_dialog :: "(conn \<Rightarrow> conn) option"

text \<open>
  \<^verbatim>\<open>try: from gate_sync import (...) except Exception: ... = None\<close>. The argument is the
  module when the import succeeds and None when it raises; then all four names are
  None.
\<close>

definition load_gate_sync :: "gate_sync option \<Rightarrow> sync_names" where
  "load_gate_sync m =
     (case m of
        None \<Rightarrow> \<lparr>ensure_change_tracking = None, export_changes_dialog = None,
                  import_pack_dialog = None, init_device_settings_dialog = None\<rparr>
      | Some g \<Rightarrow> \<lparr>ensure_change_tracking = Some (gs_ensure_change_tracking g),
                    export_changes_dialog = Some (gs_export_changes_dialog g),
                    import_pack_dialog = Some (gs_import_pack_dialog g),
                    init_device_settings_dialog = Some (gs_init_device_settings_dialog g)\<rparr>)"

text \<open>
  \<^verbatim>\<open>GateMiniCRMApp.__init__\<close>, as far as the connection goes:
  \<^verbatim>\<open>if ensure_change_tracking: ensure_change_tracking(self.conn)\<close>.
\<close>

definition GateMiniCRMApp_init :: "sync_names \<Rightarrow> conn \<Rightarrow> conn" where
  "GateMiniCRMApp_init names c =
     (case ensure_change_tracking names of None \<Rightarrow> c | Some f \<Rightarrow> f c)"

text \<open>
  The three commands of the Sync menu, each
  \<^verbatim>\<open>lambda: f(self.conn, self.master) if f else None\<close>.
\<close>

definition menu_set_device :: "sync_names \<Rightarrow> conn \<Rightarrow> conn" where
  "menu_set_device names c =
     (case init_device_settings_dialog names of None \<Rightarrow> c | Some f \<Rightarrow> f c)"

definition menu_export_sync_pack :: "sync_names \<Rightarrow> conn \<Rightarrow> conn" where
  "menu_export_sync_pack names c =
     (case export_changes_dialog names of None \<Rightarrow> c | Some f \<Rightarrow> f c)"

definition menu_import_sync_pack :: "sync_names \<Rightarrow> conn \<Rightarrow> conn" where
  "menu_import_sync_pack names c =
     (case import_pack_dialog names of None \<Rightarrow> c | Some f \<Rightarrow> f c)"

section \<open>The merge engine, from the specification\<close>

text \<open>
  The engine that exports and imports packs is the module \<^verbatim>\<open>gate_sync\<close>, which is not
  part of the sources. The definitions of this section follow sections 3, 4, 6 and 7 of
  the specification instead; the foreign keys are those \<^verbatim>\<open>init_db\<close> declares.
\<close>

text \<open>Modelled from the spec: the operation of a Change Record (section 3); the record
  type itself is declared by the missing module.\<close>

datatype operation = Insert | Update | Delete

text \<open>Modelled from the spec: the Change Record of section 3 and of the pack file of
  section 6, declared by the missing module. A value is a text or NULL (None);
  \<open>changed_fields\<close> maps a column to its new value, the first entry of a column
  counting.\<close>

record change_record =
  device_id :: string
  sequence :: nat
  table_name :: string
  row_key :: string
  operation :: operation
  changed_fields :: "(string \<times> string option) list"
  timestamp :: nat
  origin_device_id :: string
  origin_sequence :: nat

text \<open>Modelled from the spec: the Pack of sections 3 and 6, written by the missing
  exporter: the header (exporting device, declared range, record count) and the
  lines that follow it.\<close>

record pack =
  pack_device_id :: string
  from_sequence :: nat
  to_sequence :: nat
  record_count :: nat
  pack_records :: "change_record list"

text \<open>Modelled from the spec: the error taxonomy of section 7, raised by the missing
  module.\<close>

datatype sync_error = ConfigurationError | CaptureError | MalformedPackError | ForeignKeyViolation

text \<open>Modelled from the spec: the MergeReport of section 4.4, returned by the missing
  importer: the applied count, the records skipped as conflicts and those skipped for a
  missing dependency (each by table and row key), and the new watermark.\<close>

record merge_report =
  applied :: nat
  skipped_conflicts :: "(string \<times> string) list"
  fk_violations :: "(string \<times> string) list"
  new_watermark :: nat

text \<open>Modelled from the spec: the comparison key \<^verbatim>\<open>(timestamp, device_id)\<close> of the
  conflict rule of section 4.4, computed by the missing importer.\<close>

type_synonym stamp = "nat \<times> string"

text \<open>Modelled from the spec: the comparison key of a Change Record, as the missing
  importer reads it off the record: its timestamp and the device the change
  originates from. Section 3 names the device of a Change Record as its origin; in a
  line of a pack (section 6) that is \<open>origin_device_id\<close>, which equals \<open>device_id\<close> unless
  the record was relayed.\<close>

definition stamp :: "change_record \<Rightarrow> stamp" where
  "stamp r = (timestamp r, origin_device_id r)"

text \<open>Modelled from the spec: the order of the conflict rule, part of the missing
  importer: the higher timestamp wins, and on equal timestamps the lexicographically
  greater device id.\<close>

definition stamp_less :: "stamp \<Rightarrow> stamp \<Rightarrow> bool" where
  "stamp_less a b = (fst a < fst b \<or> (fst a = fst b \<and> snd a < snd b))"

text \<open>Modelled from the spec: the local copy of a row as the missing importer needs it
  for the conflict rule per field: each column with its value and the comparison key of
  the write that set it.\<close>

type_synonym sync_row = "string \<rightharpoonup> (string option \<times> stamp)"

text \<open>Modelled from the spec: the state of one installation that the missing module
  keeps (sections 3 and 6): the device identity, the local sequence counter, the rows of
  the tracked tables by table and row key, the append-only change log, and the
  watermark of each peer.\<close>

record sync_state =
  identity :: string
  local_sequence :: nat
  store :: "(string \<times> string) \<rightharpoonup> sync_row"
  local_log :: "change_record list"
  watermarks :: "string \<rightharpoonup> nat"

text \<open>Modelled from the spec: the value of a field of a row in the local state, as the
  testable properties of section 8 read it; the missing module stores it.\<close>

definition field_value :: "sync_state \<Rightarrow> string \<Rightarrow> string \<Rightarrow> string \<Rightarrow> string option option" where
  "field_value S t k f =
     (case store S (t, k) of
        None \<Rightarrow> None
      | Some row \<Rightarrow> (case row f of None \<Rightarrow> None | Some (v, s) \<Rightarrow> Some v))"

text \<open>Modelled from the spec: step 1 of the missing importer (sections 4.4 and 6). A
  pack is accepted when its line count is the declared record count and its lines
  carry exactly the sequence numbers of the declared range, in ascending order: the
  range is covered completely, nothing is out of order, missing or outside it. A pack
  without lines declares the empty range, whose end is one below its start.\<close>

definition valid_pack :: "pack \<Rightarrow> bool" where
  "valid_pack P =
     (length (pack_records P) = record_count P
      \<and> from_sequence P \<le> Suc (to_sequence P)
      \<and> map sequence (pack_records P) = [from_sequence P ..< Suc (to_sequence P)])"

text \<open>Modelled from the spec: what section 3 says a pack is, a sequence of Change
  Records from one exporting device, the device its header names; the missing exporter
  writes no other.\<close>

definition from_one_device :: "pack \<Rightarrow> bool" where
  "from_one_device P = list_all (\<lambda>r. device_id r = pack_device_id P) (pack_records P)"

text \<open>Modelled from the spec: step 2 of the missing importer. A record is already
  applied when its sequence number is at most the watermark stored for its device.\<close>

definition duplicate :: "sync_state \<Rightarrow> change_record \<Rightarrow> bool" where
  "duplicate S r =
     (case watermarks S (device_id r) of None \<Rightarrow> False | Some w \<Rightarrow> sequence r \<le> w)"

text \<open>The foreign keys of the schema, as \<^verbatim>\<open>init_db\<close> declares them: table, column and
  the table referred to.\<close>

definition foreign_keys :: "(string \<times> string \<times> string) list" where
  "foreign_keys =
     [(''contacts'', ''company_id'', ''companies''),
      (''deals'', ''company_id'', ''companies''),
      (''deals'', ''contact_id'', ''contacts''),
      (''activities'', ''deal_id'', ''deals''),
      (''activities'', ''company_id'', ''companies''),
      (''time_entries'', ''deal_id'', ''deals''),
      (''invoices'', ''deal_id'', ''deals''),
      (''invoice_items'', ''invoice_id'', ''invoices'')]"

definition parent_table :: "string \<Rightarrow> string \<Rightarrow> string option" where
  "parent_table t c = map_of (map (\<lambda>(t, c, p). ((t, c), p)) foreign_keys) (t, c)"

text \<open>Modelled from the spec: the foreign-key failure of sections 4.4 and 7, detected by
  the missing importer when it applies an insert or an update: a column that is a
  foreign key is set to the key of a parent row that is absent locally.\<close>

definition fk_violation :: "sync_state \<Rightarrow> change_record \<Rightarrow> bool" where
  "fk_violation S r =
     (operation r \<noteq> Delete
      \<and> list_ex (\<lambda>(c, v). case parent_table (table_name r) c of
                             None \<Rightarrow> False
                           | Some p \<Rightarrow> (case v of None \<Rightarrow> False
                                        | Some key \<Rightarrow> store S (p, key) = None))
           (changed_fields r))"

text \<open>Modelled from the spec: the columns of a record that win against the local row
  under the conflict rule of step 4 of the missing importer: those the row does not
  hold, and those whose local comparison key is less than the record's.\<close>

definition winners :: "sync_row \<Rightarrow> change_record \<Rightarrow> (string \<times> string option) list" where
  "winners row r =
     filter (\<lambda>(f, v). case row f of None \<Rightarrow> True | Some (v0, s0) \<Rightarrow> stamp_less s0 (stamp r))
       (changed_fields r)"

text \<open>Modelled from the spec: the row after the missing importer has merged a record
  into it field by field: a winning column takes the record's value and comparison
  key, every other column stays.\<close>

definition lww_merge :: "sync_row \<Rightarrow> change_record \<Rightarrow> sync_row" where
  "lww_merge row r = (\<lambda>f.
     case map_of (changed_fields r) f of
       None \<Rightarrow> row f
     | Some v \<Rightarrow> (case row f of
                    None \<Rightarrow> Some (v, stamp r)
                  | Some (v0, s0) \<Rightarrow> if stamp_less s0 (stamp r) then Some (v, stamp r)
                                     else Some (v0, s0)))"

text \<open>Modelled from the spec: step 6 of the missing importer and the capture of
  section 4.2: an applied change is appended to the local log under the next local
  sequence number, with the fields that were written and the origin of the record
  kept.\<close>

definition capture :: "change_record \<Rightarrow> (string \<times> string option) list \<Rightarrow> sync_state \<Rightarrow> sync_state" where
  "capture r written S =
     S\<lparr>local_sequence := Suc (local_sequence S),
       local_log := local_log S
         @ [r\<lparr>device_id := identity S, sequence := Suc (local_sequence S),
               changed_fields := written\<rparr>]\<rparr>"

text \<open>Modelled from the spec: step 3 of the missing importer for one record that is
  neither a duplicate nor short of a dependency. The result says whether the record
  was applied. An insert creates the row, or is merged under the conflict rule when
  the row exists; an update of an absent row is dropped; a delete removes the row
  whatever the local copy holds.\<close>

definition apply_record :: "change_record \<Rightarrow> sync_state \<Rightarrow> bool \<times> sync_state" where
  "apply_record r S =
     (let rk = (table_name r, row_key r)
      in case operation r of
           Delete \<Rightarrow>
             (case store S rk of
                None \<Rightarrow> (False, S)
              | Some row \<Rightarrow> (True, capture r [] (S\<lparr>store := (store S)(rk := None)\<rparr>)))
         | Update \<Rightarrow>
             (case store S rk of
                None \<Rightarrow> (False, S)
              | Some row \<Rightarrow>
                  (if winners row r = [] then (False, S)
                   else (True, capture r (winners row r)
                                 (S\<lparr>store := (store S)(rk \<mapsto> lww_merge row r)\<rparr>))))
         | Insert \<Rightarrow>
             (case store S rk of
                None \<Rightarrow> (True, capture r (changed_fields r)
                                  (S\<lparr>store := (store S)(rk \<mapsto> lww_merge Map.empty r)\<rparr>))
              | Some row \<Rightarrow>
                  (if winners row r = [] then (False, S)
                   else (True, capture r (winners row r)
                                 (S\<lparr>store := (store S)(rk \<mapsto> lww_merge row r)\<rparr>)))))"

text \<open>Modelled from the spec: the body of the loop of the missing importer over the
  records of a pack (steps 2 and 3, and the per-record failures of section 7), on the
  report so far and the state. A duplicate is passed over; a record short of a
  dependency is skipped and reported; any other record is applied and counted, or
  reported as a skipped conflict.\<close>

definition merge_step :: "change_record \<Rightarrow> merge_report \<times> sync_state \<Rightarrow> merge_report \<times> sync_state" where
  "merge_step r = (\<lambda>(rep, S).
     if duplicate S r then (rep, S)
     else if fk_violation S r then
       (rep\<lparr>fk_violations := fk_violations rep @ [(table_name r, row_key r)]\<rparr>, S)
     else (case apply_record r S of
             (True, S') \<Rightarrow> (rep\<lparr>applied := Suc (applied rep)\<rparr>, S')
           | (False, S') \<Rightarrow>
               (rep\<lparr>skipped_conflicts := skipped_conflicts rep @ [(table_name r, row_key r)]\<rparr>,
                S')))"

text \<open>Modelled from the spec: the report the missing importer starts from.\<close>

definition empty_report :: merge_report where
  "empty_report = \<lparr>applied = 0, skipped_conflicts = [], fk_violations = [], new_watermark = 0\<rparr>"

text \<open>Modelled from the spec: the operation \<^verbatim>\<open>import(pack)\<close> of section 4.4, which the
  missing module implements. A pack that fails the validation is rejected with
  MalformedPackError and the state is returned as it was. Otherwise the records are
  merged in order, the watermark of the exporting device is advanced to the declared
  \<open>to_sequence\<close> (never back), and the report is returned.\<close>

definition import_pack :: "pack \<Rightarrow> sync_state \<Rightarrow> (sync_error + merge_report) \<times> sync_state" where
  "import_pack P S =
     (if \<not> valid_pack P then (Inl MalformedPackError, S)
      else (let (rep, S') = fold merge_step (pack_records P) (empty_report, S);
                w = (case watermarks S' (pack_device_id P) of
                       None \<Rightarrow> to_sequence P
                     | Some w0 \<Rightarrow> max w0 (to_sequence P))
            in (Inr (rep\<lparr>new_watermark := w\<rparr>),
                S'\<lparr>watermarks := (watermarks S')(pack_device_id P \<mapsto> w)\<rparr>)))"

text \<open>Modelled from the spec: the number of records an import applied, read off the
  result of the missing importer: none when the pack was rejected.\<close>

definition applied_count :: "(sync_error + merge_report) \<Rightarrow> nat" where
  "applied_count res = (case res of Inl e \<Rightarrow> 0 | Inr rep \<Rightarrow> applied rep)"

text \<open>Modelled from the spec: two reports of the missing importer put together: the
  counts added, the lists appended; used to relate the report of a whole pack to the
  reports of its parts.\<close>

definition add_report :: "merge_report \<Rightarrow> merge_report \<Rightarrow> merge_report" where
  "add_report a b =
     a\<lparr>applied := applied a + applied b,
       skipped_conflicts := skipped_conflicts a @ skipped_conflicts b,
       fk_violations := fk_violations a @ fk_violations b\<rparr>"

text \<open>Modelled from the spec: that a record is about a given row of a given table, as
  the missing importer finds the row a record applies to.\<close>

definition touches :: "string \<Rightarrow> string \<Rightarrow> change_record \<Rightarrow> bool" where
  "touches t k r = (table_name r = t \<and> row_key r = k)"

text \<open>Modelled from the spec: the parent rows a record depends on (sections 4.4 and 7),
  which the missing importer looks up: for each foreign-key column the record sets to
  a key, the table referred to and that key.\<close>

definition refs :: "change_record \<Rightarrow> (string \<times> string) list" where
  "refs r =
     concat (map (\<lambda>(c, v). case parent_table (table_name r) c of
                              None \<Rightarrow> []
                            | Some p \<Rightarrow> (case v of None \<Rightarrow> [] | Some key \<Rightarrow> [(p, key)]))
               (changed_fields r))"

text \<open>Modelled from the spec: that a list of records brings a device no insert of a
  given row that the missing importer would apply: every insert of the row in the list
  is already covered by the device's watermark.\<close>

definition no_new_insert_of :: "sync_state \<Rightarrow> string \<Rightarrow> string \<Rightarrow> change_record list \<Rightarrow> bool" where
  "no_new_insert_of S t k rs =
     list_all (\<lambda>r. operation r = Insert \<and> touches t k r \<longrightarrow> duplicate S r) rs"

text \<open>Modelled from the spec: that the local copy of a field holds no write later than
  the update \<open>u\<close> that sets it to \<open>v\<close>, in the order of the conflict rule of the missing
  importer: the field is unset, or was written before \<open>u\<close>, or holds the write of \<open>u\<close>
  itself.\<close>

definition not_later :: "sync_row \<Rightarrow> string \<Rightarrow> change_record \<Rightarrow> string option \<Rightarrow> bool" where
  "not_later row f u v =
     (case row f of
        None \<Rightarrow> True
      | Some (v0, s0) \<Rightarrow> stamp_less s0 (stamp u) \<or> (s0 = stamp u \<and> v0 = v))"

text \<open>Modelled from the spec: that a record \<open>r\<close> of a pack leaves the update \<open>u\<close> of
  field \<open>f\<close> of row \<open>(t, k)\<close> the last writer under the rules of the missing importer:
  \<open>r\<close> deletes neither the row nor a parent row \<open>u\<close> depends on, and if \<open>r\<close> writes the
  same field of the row, its comparison key is less than that of \<open>u\<close>.\<close>

definition calm :: "string \<Rightarrow> string \<Rightarrow> string \<Rightarrow> change_record \<Rightarrow> change_record \<Rightarrow> bool" where
  "calm t k f u r =
     (\<not> (operation r = Delete
          \<and> (touches t k r \<or> (table_name r, row_key r) \<in> set (refs u)))
      \<and> (touches t k r \<and> map_of (changed_fields r) f \<noteq> None
           \<longrightarrow> stamp_less (stamp r) (stamp u)))"

text \<open>Modelled from the spec: that a device is ready for the update \<open>u\<close> that sets
  field \<open>f\<close> of row \<open>(t, k)\<close> to \<open>v\<close>, as the missing importer finds it: the device holds
  the row with no later write of the field, and every parent row \<open>u\<close> depends on.\<close>

definition ready_for ::
  "sync_state \<Rightarrow> string \<Rightarrow> string \<Rightarrow> string \<Rightarrow> change_record \<Rightarrow> string option \<Rightarrow> bool" where
  "ready_for S t k f u v =
     ((case store S (t, k) of None \<Rightarrow> False | Some row \<Rightarrow> not_later row f u v)
      \<and> list_all (\<lambda>p. store S p \<noteq> None) (refs u))"

text \<open>Modelled from the spec: that a device holds the write of the update \<open>u\<close> in
  field \<open>f\<close> of row \<open>(t, k)\<close>, as the device that made the update does and as the missing
  importer leaves it where the update won: the field has the value \<open>v\<close> under the
  comparison key of \<open>u\<close>.\<close>

definition holds_write ::
  "sync_state \<Rightarrow> string \<Rightarrow> string \<Rightarrow> string \<Rightarrow> change_record \<Rightarrow> string option \<Rightarrow> bool" where
  "holds_write S t k f u v =
     (case store S (t, k) of None \<Rightarrow> False | Some row \<Rightarrow> row f = Some (v, stamp u))"

subsection \<open>Local changes and export\<close>

text \<open>Modelled from the spec: the Change Record the missing capture (section 4.2)
  writes for a change made on the device itself: the device's identity and its next
  sequence number, which are also the origin.\<close>

definition local_record ::
  "sync_state \<Rightarrow> string \<Rightarrow> string \<Rightarrow> operation \<Rightarrow> (string \<times> string option) list \<Rightarrow> nat \<Rightarrow> change_record" where
  "local_record S t k oper cs ts =
     \<lparr>device_id = identity S, sequence = Suc (local_sequence S), table_name = t, row_key = k,
      operation = oper, changed_fields = cs, timestamp = ts,
      origin_device_id = identity S, origin_sequence = Suc (local_sequence S)\<rparr>"

text \<open>Modelled from the spec: an insert made by the editing surface at time \<open>ts\<close> and
  captured by the missing module (section 4.2): the row is created with all its
  columns and one Change Record is appended. Nothing happens when the key is taken.\<close>

definition local_insert ::
  "string \<Rightarrow> string \<Rightarrow> (string \<times> string option) list \<Rightarrow> nat \<Rightarrow> sync_state \<Rightarrow> sync_state" where
  "local_insert t k cs ts S =
     (case store S (t, k) of
        Some row \<Rightarrow> S
      | None \<Rightarrow> (let r = local_record S t k Insert cs ts
                 in capture r cs (S\<lparr>store := (store S)((t, k) \<mapsto> lww_merge Map.empty r)\<rparr>)))"

text \<open>Modelled from the spec: an update made by the editing surface at time \<open>ts\<close> and
  captured by the missing module (section 4.2): \<open>changed_fields\<close> holds only the columns
  whose value differs from the row's, these are written with the comparison key of the
  new record, and one Change Record is appended. Nothing happens when the row is
  absent or no column differs.\<close>

definition local_update ::
  "string \<Rightarrow> string \<Rightarrow> (string \<times> string option) list \<Rightarrow> nat \<Rightarrow> sync_state \<Rightarrow> sync_state" where
  "local_update t k cs ts S =
     (case store S (t, k) of
        None \<Rightarrow> S
      | Some row \<Rightarrow>
          (let changed = filter (\<lambda>(f, v). case row f of None \<Rightarrow> True
                                          | Some (v0, s0) \<Rightarrow> v0 \<noteq> v) cs;
               r = local_record S t k Update changed ts
           in if changed = [] then S
              else capture r changed
                     (S\<lparr>store := (store S)((t, k) \<mapsto>
                          (\<lambda>f. case map_of changed f of
                                  None \<Rightarrow> row f
                                | Some v \<Rightarrow> Some (v, stamp r)))\<rparr>)))"

text \<open>Modelled from the spec: a delete made by the editing surface at time \<open>ts\<close> and
  captured by the missing module (section 4.2): the row is removed and one Change
  Record is appended. Nothing happens when the row is absent.\<close>

definition local_delete :: "string \<Rightarrow> string \<Rightarrow> nat \<Rightarrow> sync_state \<Rightarrow> sync_state" where
  "local_delete t k ts S =
     (case store S (t, k) of
        None \<Rightarrow> S
      | Some row \<Rightarrow> capture (local_record S t k Delete [] ts) []
                      (S\<lparr>store := (store S)((t, k) := None)\<rparr>))"

text \<open>Modelled from the spec: the operation \<^verbatim>\<open>export(since)\<close> of section 4.3, which the
  missing module implements: the Change Records of the local log with a sequence
  number above \<open>since\<close>, in the order of the log, under a header that names the device
  and the range from \<open>since + 1\<close> to the local sequence counter. The state is not
  changed.\<close>

definition export_pack :: "nat \<Rightarrow> sync_state \<Rightarrow> pack" where
  "export_pack since S =
     (let rs = filter (\<lambda>r. since < sequence r) (local_log S)
      in \<lparr>pack_device_id = identity S, from_sequence = Suc since,
          to_sequence = local_sequence S, record_count = length rs, pack_records = rs\<rparr>)"

subsection \<open>Data for concrete runs\<close>

text \<open>Modelled from the spec: the state of an installation before its first change or
  import, as the missing module would create it for the device named.\<close>

definition fresh_state :: "string \<Rightarrow> sync_state" where
  "fresh_state dev = \<lparr>identity = dev, local_sequence = 0, store = Map.empty, local_log = [],
     watermarks = Map.empty\<rparr>"

text \<open>Modelled from the spec: the Change Record the missing capture writes for a new
  row with the given columns.\<close>

definition insert_row ::
  "string \<Rightarrow> nat \<Rightarrow> nat \<Rightarrow> string \<Rightarrow> string \<Rightarrow> (string \<times> string option) list \<Rightarrow> change_record" where
  "insert_row dev n ts t k cs =
     \<lparr>device_id = dev, sequence = n, table_name = t, row_key = k,
      operation = Insert, changed_fields = cs, timestamp = ts,
      origin_device_id = dev, origin_sequence = n\<rparr>"

text \<open>Modelled from the spec: the pack the missing exporter writes for a run of records
  of one device: the header names the device, the first and the last sequence number
  and the number of records.\<close>

definition pack_of :: "string \<Rightarrow> nat \<Rightarrow> nat \<Rightarrow> change_record list \<Rightarrow> pack" where
  "pack_of dev lo hi rs =
     \<lparr>pack_device_id = dev, from_sequence = lo, to_sequence = hi, record_count = length rs,
      pack_records = rs\<rparr>"

text \<open>Modelled from the spec: a pack of device A as the missing exporter could write
  it: a contact whose company \<open>c9\<close> is not in the pack, then the company \<open>c1\<close>.\<close>

definition pack_A :: pack where
  "pack_A = pack_of ''A'' 1 2
     [insert_row ''A'' 1 10 ''contacts'' ''k1''
        [(''company_id'', Some ''c9''), (''name'', Some ''Ann'')],
      insert_row ''A'' 2 11 ''companies'' ''c1'' [(''name'', Some ''Acme'')]]"

text \<open>Modelled from the spec: the same two lines in the opposite order, a pack the
  missing importer has to reject.\<close>

definition pack_A_swapped :: pack where
  "pack_A_swapped = pack_of ''A'' 1 2
     [insert_row ''A'' 2 11 ''companies'' ''c1'' [(''name'', Some ''Acme'')],
      insert_row ''A'' 1 10 ''contacts'' ''k1''
        [(''company_id'', Some ''c9''), (''name'', Some ''Ann'')]]"

text \<open>Modelled from the spec: a device that has created contact \<open>r1\<close> at time 900, with
  the missing capture recording the insert.\<close>

definition created :: "string \<Rightarrow> sync_state" where
  "created dev =
     local_insert ''contacts'' ''r1'' [(''phone'', Some ''555-0000'')] 900 (fresh_state dev)"

text \<open>Modelled from the spec: a device \<open>dev\<close> that has imported, with the missing
  importer, the full pack of the device \<open>src\<close> that created contact \<open>r1\<close>.\<close>

definition received :: "string \<Rightarrow> string \<Rightarrow> sync_state" where
  "received src dev = snd (import_pack (export_pack 0 (created src)) (fresh_state dev))"

text \<open>Modelled from the spec: the user of a device sets the phone number of contact
  \<open>r1\<close> at time \<open>ts\<close>, captured by the missing module.\<close>

definition set_phone :: "string \<Rightarrow> nat \<Rightarrow> sync_state \<Rightarrow> sync_state" where
  "set_phone v ts S = local_update ''contacts'' ''r1'' [(''phone'', Some v)] ts S"

text \<open>Modelled from the spec: the user of a device deletes contact \<open>r1\<close> at time \<open>ts\<close>,
  captured by the missing module.\<close>

definition remove_contact :: "nat \<Rightarrow> sync_state \<Rightarrow> sync_state" where
  "remove_contact ts S = local_delete ''contacts'' ''r1'' ts S"

text \<open>Modelled from the spec: device A after it has created contact \<open>r1\<close> without a
  company and then the company \<open>c1\<close>, both captured by the missing module.\<close>

definition contact_and_company :: sync_state where
  "contact_and_company =
     local_insert ''companies'' ''c1'' [(''name'', Some ''Acme'')] 800
       (local_insert ''contacts'' ''r1'' [(''name'', Some ''Ann''), (''company_id'', None)] 700
          (fresh_state ''A''))"

text \<open>Modelled from the spec: a device that has imported, with the missing importer,
  the full pack of device A holding that contact and that company.\<close>

definition got_contact_and_company :: "string \<Rightarrow> sync_state" where
  "got_contact_and_company dev =
     snd (import_pack (export_pack 0 contact_and_company) (fresh_state dev))"

text \<open>Modelled from the spec: device A then gives the contact the company \<open>c1\<close> at
  time 1000; the missing capture records the update as A's third change.\<close>

definition A_sets_company :: sync_state where
  "A_sets_company =
     local_update ''contacts'' ''r1'' [(''company_id'', Some ''c1'')] 1000 contact_and_company"

text \<open>Modelled from the spec: device B, holding A's contact and company, creates the
  company \<open>c2\<close> at time 1001; the missing capture records it as B's third change.\<close>

definition B_adds_company :: sync_state where
  "B_adds_company =
     local_insert ''companies'' ''c2'' [(''name'', Some ''Bolt'')] 1001
       (got_contact_and_company ''B'')"

text \<open>Modelled from the spec: device B then gives the contact the company \<open>c2\<close> at
  time 1005; the missing capture records the update as B's fourth change.\<close>

definition B_sets_company :: sync_state where
  "B_sets_company =
     local_update ''contacts'' ''r1'' [(''company_id'', Some ''c2'')] 1005 B_adds_company"

text \<open>Modelled from the spec: device Z, holding A's contact and company, imports with
  the missing importer the full pack B exported after creating the company \<open>c2\<close>, and
  its user then deletes that company at time 1002, captured by the missing module.\<close>

definition Z_drops_company :: sync_state where
  "Z_drops_company =
     local_delete ''companies'' ''c2'' 1002
       (snd (import_pack (export_pack 0 B_adds_company) (got_contact_and_company ''Z'')))"
section \<open>Settings: what is written is read back\<close>

lemma get_set_same: "get_setting (set_setting c k v) k = Some v"
  by (simp add: get_setting_def set_setting_def)

lemma get_set_other: "k' \<noteq> k \<Longrightarrow> get_setting (set_setting c k' v) k = get_setting c k"
  by (simp add: get_setting_def set_setting_def)

lemma get_set_settings_other:
  "k \<notin> fst ` set kvs \<Longrightarrow> get_setting (set_settings c kvs) k = get_setting c k"
proof (induction kvs arbitrary: c)
  case Nil
  show ?case by simp
next
  case (Cons kv kvs)
  obtain k' v' where kv: "kv = (k', v')" by (cases kv)
  from Cons.prems kv have ne: "k' \<noteq> k" and rest: "k \<notin> fst ` set kvs" by auto
  have "get_setting (set_settings (set_setting c k' v') kvs) k
      = get_setting (set_setting c k' v') k"
    using Cons.IH [OF rest] .
  also have "\<dots> = get_setting c k" using ne by (rule get_set_other)
  finally show ?case using kv by simp
qed

lemma get_init_db: "get_setting init_db k = None"
  by (simp add: get_setting_def init_db_def)

text \<open>
  Claim C8. On any connection, \<^verbatim>\<open>set_setting(conn, k, v)\<close> followed by
  \<^verbatim>\<open>get_setting(conn, k)\<close> returns \<open>v\<close>, whether or not \<open>k\<close> had a value before: also
  after an earlier \<^verbatim>\<open>set_setting\<close> of the same key, whose value is replaced. A key that
  was never set, on the store \<^verbatim>\<open>init_db\<close> created and after any run of
  \<^verbatim>\<open>set_setting\<close> calls on other keys, reads as None.
\<close>

theorem setting_roundtrip:
  "get_setting (set_setting c k v) k = Some v
   \<and> get_setting (set_setting (set_setting c k w) k v) k = Some v
   \<and> (k \<notin> fst ` set kvs \<longrightarrow> get_setting (set_settings init_db kvs) k = None)"
  by (simp add: get_set_same get_set_settings_other get_init_db)

theorem setting_roundtrip_witness:
  "get_setting (set_setting init_db ''pass_hash'' ''00ff'') ''pass_hash'' = Some ''00ff''
   \<and> get_setting (set_setting (set_setting init_db ''pass_hash'' ''aa'') ''pass_hash'' ''00ff'')
        ''pass_hash'' = Some ''00ff''
   \<and> ''pass_hash'' \<notin> fst ` set [(''pass_salt'', ''00ff'')]
   \<and> get_setting (set_settings init_db [(''pass_salt'', ''00ff'')]) ''pass_hash'' = None"
  using setting_roundtrip [where c = init_db and k = "''pass_hash''" and v = "''00ff''"
      and w = "''aa''" and kvs = "[(''pass_salt'', ''00ff'')]"]
  by simp

section \<open>SQL statements: what they change\<close>

lemma tables_track [simp]: "tables (track m c) = tables c"
  by (simp add: track_def split: option.splits)

lemma settings_track [simp]: "settings (track m c) = settings c"
  by (simp add: track_def split: option.splits)


lemma fst_sql_insert: "fst (sql_insert tn cs c) = next_rowid (tables c tn)"
  by (simp add: sql_insert_def Let_def)

section \<open>CSV import: the rows inserted and the count reported\<close>

















section \<open>The passcode gate: when it opens\<close>

lemma enter_passcode_bounds:
  "enter_passcode H salt stored ask n i = (b, k) \<Longrightarrow> i \<le> k \<and> k \<le> i + n"
proof (induction n arbitrary: i)
  case 0
  then show ?case by simp
next
  case (Suc n)
  show ?case
  proof (cases "ask i")
    case None
    with Suc.prems show ?thesis by auto
  next
    case (Some e)
    show ?thesis
    proof (cases "hash_pass H e salt = stored")
      case True
      with Some Suc.prems show ?thesis by auto
    next
      case False
      with Some Suc.prems have "enter_passcode H salt stored ask n (Suc i) = (b, k)" by simp
      from Suc.IH [OF this] show ?thesis by simp
    qed
  qed
qed

lemma enter_passcode_iff:
  "enter_passcode H salt stored ask n i = (b, k) \<Longrightarrow>
     b = (\<exists>j. i \<le> j \<and> j < k \<and> (\<exists>p. ask j = Some p \<and> hash_pass H p salt = stored))"
proof (induction n arbitrary: i)
  case 0
  then show ?case by auto
next
  case (Suc n)
  show ?case
  proof (cases "ask i")
    case None
    with Suc.prems have "b = False" "k = Suc i" by auto
    moreover have "\<not> (\<exists>j. i \<le> j \<and> j < Suc i \<and> (\<exists>p. ask j = Some p \<and> hash_pass H p salt = stored))"
      using None by (auto simp: less_Suc_eq_le)
    ultimately show ?thesis by simp
  next
    case (Some e)
    show ?thesis
    proof (cases "hash_pass H e salt = stored")
      case True
      with Some Suc.prems have "b = True" "k = Suc i" by auto
      with Some True show ?thesis by auto
    next
      case False
      with Some Suc.prems have r: "enter_passcode H salt stored ask n (Suc i) = (b, k)" by simp
      have "(\<exists>j. i \<le> j \<and> j < k \<and> (\<exists>p. ask j = Some p \<and> hash_pass H p salt = stored))
          = (\<exists>j. Suc i \<le> j \<and> j < k \<and> (\<exists>p. ask j = Some p \<and> hash_pass H p salt = stored))"
      proof
        assume "\<exists>j. i \<le> j \<and> j < k \<and> (\<exists>p. ask j = Some p \<and> hash_pass H p salt = stored)"
        then obtain j p where j: "i \<le> j" "j < k" "ask j = Some p" "hash_pass H p salt = stored"
          by blast
        with Some False have "j \<noteq> i" by auto
        with j have "Suc i \<le> j" by simp
        with j show "\<exists>j. Suc i \<le> j \<and> j < k \<and> (\<exists>p. ask j = Some p \<and> hash_pass H p salt = stored)"
          by blast
      next
        assume "\<exists>j. Suc i \<le> j \<and> j < k \<and> (\<exists>p. ask j = Some p \<and> hash_pass H p salt = stored)"
        then obtain j p where j: "Suc i \<le> j" "j < k" "ask j = Some p" "hash_pass H p salt = stored"
          by blast
        then have "i \<le> j" by simp
        with j show "\<exists>j. i \<le> j \<and> j < k \<and> (\<exists>p. ask j = Some p \<and> hash_pass H p salt = stored)"
          by blast
      qed
      with Suc.IH [OF r] show ?thesis by simp
    qed
  qed
qed

lemma enter_passcode_all_wrong:
  "(\<forall>j. i \<le> j \<and> j < i + n \<longrightarrow> (\<exists>p. ask j = Some p \<and> hash_pass H p salt \<noteq> stored)) \<Longrightarrow>
     enter_passcode H salt stored ask n i = (False, i + n)"
proof (induction n arbitrary: i)
  case 0
  then show ?case by simp
next
  case (Suc n)
  have "i \<le> i \<and> i < i + Suc n" by simp
  with Suc.prems obtain p where p: "ask i = Some p" "hash_pass H p salt \<noteq> stored"
    by blast
  have "enter_passcode H salt stored ask n (Suc i) = (False, Suc i + n)"
    by (rule Suc.IH) (use Suc.prems in auto)
  with p show ?case by simp
qed

lemma enter_passcode_cancel:
  "(\<forall>j. i \<le> j \<and> j < i + m \<longrightarrow> (\<exists>p. ask j = Some p \<and> hash_pass H p salt \<noteq> stored)) \<Longrightarrow>
   ask (i + m) = None \<Longrightarrow> m < n \<Longrightarrow>
     enter_passcode H salt stored ask n i = (False, Suc (i + m))"
proof (induction n arbitrary: i m)
  case 0
  then show ?case by simp
next
  case (Suc n)
  show ?case
  proof (cases m)
    case 0
    with Suc.prems show ?thesis by simp
  next
    case (Suc m')
    have "i \<le> i \<and> i < i + m" using Suc by simp
    with Suc.prems(1) obtain p where p: "ask i = Some p" "hash_pass H p salt \<noteq> stored"
      by blast
    have "enter_passcode H salt stored ask n (Suc i) = (False, Suc (Suc i + m'))"
      by (rule Suc.IH) (use Suc.prems Suc in auto)
    with p Suc show ?thesis by simp
  qed
qed

lemma create_passcode_returns:
  "ask (i + 2 * k) = None \<or> ask (Suc (i + 2 * k)) = ask (i + 2 * k) \<Longrightarrow>
     create_passcode ask i \<noteq> None"
proof (induction k arbitrary: i)
  case 0
  then show ?case
    by (subst create_passcode.simps) (auto split: option.splits)
next
  case (Suc k)
  have "create_passcode ask (Suc (Suc i)) \<noteq> None"
    by (rule Suc.IH) (use Suc.prems in simp)
  then show ?case
    by (subst create_passcode.simps) (auto split: option.splits)
qed


lemma ensure_passcode_stored:
  assumes "truthy (get_setting c ''pass_hash'')"
  shows "ensure_passcode H token yes ask c =
    Some (fst (enter_passcode H (or_empty (get_setting c ''pass_salt''))
                 (or_empty (get_setting c ''pass_hash'')) ask 3 0),
          c,
          snd (enter_passcode H (or_empty (get_setting c ''pass_salt''))
                 (or_empty (get_setting c ''pass_hash'')) ask 3 0))"
  using assms by (simp add: ensure_passcode_def Let_def split: prod.splits)

lemma ensure_passcode_absent:
  assumes "\<not> truthy (get_setting c ''pass_hash'')"
  shows "ensure_passcode H token yes ask c =
    (if yes then
       (case create_passcode ask 0 of
          None \<Rightarrow> None
        | Some None \<Rightarrow> Some (True, c, 0)
        | Some (Some p1) \<Rightarrow>
            Some (True,
                  set_setting (set_setting c ''pass_salt'' token) ''pass_hash''
                    (hash_pass H p1 token),
                  0))
     else Some (True, c, 0))"
  using assms by (simp add: ensure_passcode_def Let_def)

text \<open>
  Claim C9, as the code has it. With a non-empty \<^verbatim>\<open>pass_hash\<close> in the settings,
  \<^verbatim>\<open>ensure_passcode\<close> returns after at most 3 "Enter passcode" dialogs, leaves the store
  as it is, and returns True exactly when one of the strings entered in those dialogs
  hashes, with the stored \<^verbatim>\<open>pass_salt\<close> (the empty string when there is none), to the
  stored hash; three incorrect entries give False after 3 dialogs, and a cancelled
  dialog after incorrect entries gives False at once. With no \<^verbatim>\<open>pass_hash\<close>, or an
  empty one (the test is \<^verbatim>\<open>if not stored\<close>), no "Enter passcode" dialog is shown and
  every return is True, whether or not a passcode was set: at once when the user
  declines to set one, and otherwise as soon as a round of the create dialogue is
  cancelled or confirmed.
\<close>

theorem ensure_passcode_gate:
  "(truthy (get_setting c ''pass_hash'') \<longrightarrow>
      (\<exists>b n. ensure_passcode H token yes ask c = Some (b, c, n) \<and> n \<le> 3
         \<and> b = (\<exists>j<n. \<exists>p. ask j = Some p
                   \<and> hash_pass H p (or_empty (get_setting c ''pass_salt''))
                       = or_empty (get_setting c ''pass_hash''))))
   \<and> (truthy (get_setting c ''pass_hash'')
        \<and> (\<forall>j<3. \<exists>p. ask2 j = Some p
               \<and> hash_pass H p (or_empty (get_setting c ''pass_salt''))
                   \<noteq> or_empty (get_setting c ''pass_hash'')) \<longrightarrow>
      ensure_passcode H token yes ask2 c = Some (False, c, 3))
   \<and> (truthy (get_setting c ''pass_hash'') \<and> m < 3 \<and> ask3 m = None
        \<and> (\<forall>j<m. \<exists>p. ask3 j = Some p
               \<and> hash_pass H p (or_empty (get_setting c ''pass_salt''))
                   \<noteq> or_empty (get_setting c ''pass_hash'')) \<longrightarrow>
      ensure_passcode H token yes ask3 c = Some (False, c, Suc m))
   \<and> (\<not> truthy (get_setting c' ''pass_hash'') \<longrightarrow>
      (\<forall>r. ensure_passcode H token yes' ask' c' = Some r \<longrightarrow> fst r \<and> snd (snd r) = 0)
      \<and> (\<not> yes' \<longrightarrow> ensure_passcode H token yes' ask' c' = Some (True, c', 0))
      \<and> ((\<exists>k. ask' (2 * k) = None \<or> ask' (Suc (2 * k)) = ask' (2 * k)) \<longrightarrow>
           ensure_passcode H token yes' ask' c' \<noteq> None))"
proof (intro conjI impI)
  let ?salt = "or_empty (get_setting c ''pass_salt'')"
  let ?stored = "or_empty (get_setting c ''pass_hash'')"
  assume t: "truthy (get_setting c ''pass_hash'')"
  obtain b n where e: "enter_passcode H ?salt ?stored ask 3 0 = (b, n)"
    by (cases "enter_passcode H ?salt ?stored ask 3 0")
  from enter_passcode_bounds [OF e] have n: "n \<le> 3" by simp
  from enter_passcode_iff [OF e]
  have b: "b = (\<exists>j<n. \<exists>p. ask j = Some p \<and> hash_pass H p ?salt = ?stored)" by simp
  from ensure_passcode_stored [OF t, of H token yes ask] e
  have "ensure_passcode H token yes ask c = Some (b, c, n)" by simp
  with n b show "\<exists>b n. ensure_passcode H token yes ask c = Some (b, c, n) \<and> n \<le> 3
         \<and> b = (\<exists>j<n. \<exists>p. ask j = Some p \<and> hash_pass H p ?salt = ?stored)"
    by blast
next
  let ?salt = "or_empty (get_setting c ''pass_salt'')"
  let ?stored = "or_empty (get_setting c ''pass_hash'')"
  assume a: "truthy (get_setting c ''pass_hash'')
        \<and> (\<forall>j<3. \<exists>p. ask2 j = Some p \<and> hash_pass H p ?salt \<noteq> ?stored)"
  then have "\<forall>j. 0 \<le> j \<and> j < 0 + 3 \<longrightarrow> (\<exists>p. ask2 j = Some p \<and> hash_pass H p ?salt \<noteq> ?stored)"
    by simp
  from enter_passcode_all_wrong [OF this]
  have "enter_passcode H ?salt ?stored ask2 3 0 = (False, 3)" by simp
  with a ensure_passcode_stored [of c H token yes ask2]
  show "ensure_passcode H token yes ask2 c = Some (False, c, 3)" by simp
next
  let ?salt = "or_empty (get_setting c ''pass_salt'')"
  let ?stored = "or_empty (get_setting c ''pass_hash'')"
  assume a: "truthy (get_setting c ''pass_hash'') \<and> m < 3 \<and> ask3 m = None
        \<and> (\<forall>j<m. \<exists>p. ask3 j = Some p \<and> hash_pass H p ?salt \<noteq> ?stored)"
  then have w: "\<forall>j. 0 \<le> j \<and> j < 0 + m \<longrightarrow> (\<exists>p. ask3 j = Some p \<and> hash_pass H p ?salt \<noteq> ?stored)"
    by simp
  from a have c0: "ask3 (0 + m) = None" and m: "m < 3" by simp_all
  from enter_passcode_cancel [OF w c0 m]
  have "enter_passcode H ?salt ?stored ask3 3 0 = (False, Suc m)" by simp
  with a ensure_passcode_stored [of c H token yes ask3]
  show "ensure_passcode H token yes ask3 c = Some (False, c, Suc m)" by simp
next
  assume f: "\<not> truthy (get_setting c' ''pass_hash'')"
  show "\<forall>r. ensure_passcode H token yes' ask' c' = Some r \<longrightarrow> fst r \<and> snd (snd r) = 0"
    by (auto simp: ensure_passcode_absent [OF f] split: if_splits option.splits)
next
  assume f: "\<not> truthy (get_setting c' ''pass_hash'')" and "\<not> yes'"
  then show "ensure_passcode H token yes' ask' c' = Some (True, c', 0)"
    by (simp add: ensure_passcode_absent [OF f])
next
  assume f: "\<not> truthy (get_setting c' ''pass_hash'')"
    and "\<exists>k. ask' (2 * k) = None \<or> ask' (Suc (2 * k)) = ask' (2 * k)"
  then obtain k where "ask' (0 + 2 * k) = None \<or> ask' (Suc (0 + 2 * k)) = ask' (0 + 2 * k)"
    by auto
  from create_passcode_returns [OF this] have "create_passcode ask' 0 \<noteq> None" .
  then show "ensure_passcode H token yes' ask' c' \<noteq> None"
    by (auto simp: ensure_passcode_absent [OF f] split: option.splits)
qed

text \<open>
  Claim C9 as stated fails on a store whose \<^verbatim>\<open>pass_hash\<close> is the empty string: the
  store contains a \<^verbatim>\<open>pass_hash\<close> value, no dialog asks for the passcode, so no string is
  entered, and the result is True.
\<close>

theorem ensure_passcode_empty_hash:
  "settings (set_setting init_db ''pass_hash'' []) ''pass_hash'' = Some (Some [])
   \<and> ensure_passcode toy_digest [] False (answers []) (set_setting init_db ''pass_hash'' [])
       = Some (True, set_setting init_db ''pass_hash'' [], 0)"
  by (simp add: ensure_passcode_def set_setting_def get_setting_def truthy_def)

theorem ensure_passcode_gate_witness:
  "truthy (get_setting (set_settings init_db [(''pass_salt'', ''ab''), (''pass_hash'', ''h4321ba'')])
      ''pass_hash'')
   \<and> ensure_passcode toy_digest ''cd'' False (answers [Some ''0000'', Some ''1234''])
        (set_settings init_db [(''pass_salt'', ''ab''), (''pass_hash'', ''h4321ba'')])
      = Some (True, set_settings init_db [(''pass_salt'', ''ab''), (''pass_hash'', ''h4321ba'')], 2)
   \<and> ensure_passcode toy_digest ''cd'' False (answers [Some ''0000'', Some ''1'', Some ''2''])
        (set_settings init_db [(''pass_salt'', ''ab''), (''pass_hash'', ''h4321ba'')])
      = Some (False, set_settings init_db [(''pass_salt'', ''ab''), (''pass_hash'', ''h4321ba'')], 3)
   \<and> (1::nat) < 3 \<and> answers [Some ''0000''] 1 = None
   \<and> ensure_passcode toy_digest ''cd'' False (answers [Some ''0000''])
        (set_settings init_db [(''pass_salt'', ''ab''), (''pass_hash'', ''h4321ba'')])
      = Some (False, set_settings init_db [(''pass_salt'', ''ab''), (''pass_hash'', ''h4321ba'')], 2)
   \<and> \<not> truthy (get_setting init_db ''pass_hash'')
   \<and> ensure_passcode toy_digest ''cd'' False (answers [Some ''x'', Some ''y'', None]) init_db
      = Some (True, init_db, 0)
   \<and> answers [Some ''x'', Some ''y'', None] (2 * 1) = None
   \<and> ensure_passcode toy_digest ''cd'' True (answers [Some ''x'', Some ''y'', None]) init_db \<noteq> None"
  using ensure_passcode_gate [where c = "set_settings init_db [(''pass_salt'', ''ab''), (''pass_hash'', ''h4321ba'')]"
      and H = toy_digest and token = "''cd''" and yes = False
      and ask = "answers [Some ''0000'', Some ''1234'']"
      and ?ask2.0 = "answers [Some ''0000'', Some ''1'', Some ''2'']"
      and ?ask3.0 = "answers [Some ''0000'']" and m = 1
      and c' = init_db and yes' = False and ask' = "answers [Some ''x'', Some ''y'', None]"]
    ensure_passcode_gate [where c' = init_db and H = toy_digest and token = "''cd''" and yes' = True
      and ask' = "answers [Some ''x'', Some ''y'', None]"]
  by (simp add: ensure_passcode_def set_setting_def get_setting_def truthy_def or_empty_def
      answers_def hash_pass_def toy_digest_def init_db_def Let_def numeral_3_eq_3 create_passcode.simps)

section \<open>Mutations and the change log\<close>



lemma tracking_track [simp]: "tracking (track m c) = tracking c"
  by (simp add: track_def split: option.splits)













section \<open>The Sync menu with and without gate\_sync\<close>

text \<open>
  Claim C7, as the code has it. The program takes four functions from \<^verbatim>\<open>gate_sync\<close>, all
  or none. When the module cannot be imported the four names are None, the application
  starts all the same with the connection untouched, and each command of the Sync menu
  leaves the connection as it is. When it can be imported, startup runs
  \<^verbatim>\<open>ensure_change_tracking\<close> on the connection and each command of the Sync menu runs the
  function of the module it names.
\<close>

theorem sync_names_all_or_none:
  "ensure_change_tracking (load_gate_sync None) = None
   \<and> export_changes_dialog (load_gate_sync None) = None
   \<and> import_pack_dialog (load_gate_sync None) = None
   \<and> init_device_settings_dialog (load_gate_sync None) = None
   \<and> GateMiniCRMApp_init (load_gate_sync None) c = c
   \<and> menu_set_device (load_gate_sync None) c = c
   \<and> menu_export_sync_pack (load_gate_sync None) c = c
   \<and> menu_import_sync_pack (load_gate_sync None) c = c
   \<and> GateMiniCRMApp_init (load_gate_sync (Some g)) c = gs_ensure_change_tracking g c
   \<and> menu_set_device (load_gate_sync (Some g)) c = gs_init_device_settings_dialog g c
   \<and> menu_export_sync_pack (load_gate_sync (Some g)) c = gs_export_changes_dialog g c
   \<and> menu_import_sync_pack (load_gate_sync (Some g)) c = gs_import_pack_dialog g c"
  by (simp add: load_gate_sync_def GateMiniCRMApp_init_def menu_set_device_def
      menu_export_sync_pack_def menu_import_sync_pack_def)

theorem sync_names_all_or_none_witness:
  "menu_export_sync_pack (load_gate_sync None) init_db = init_db
   \<and> menu_export_sync_pack
        (load_gate_sync (Some \<lparr>gs_ensure_change_tracking = id, gs_export_changes_dialog = id,
           gs_import_pack_dialog = id, gs_init_device_settings_dialog = id\<rparr>)) init_db = init_db"
  using sync_names_all_or_none [where c = init_db
      and g = "\<lparr>gs_ensure_change_tracking = id, gs_export_changes_dialog = id,
           gs_import_pack_dialog = id, gs_init_device_settings_dialog = id\<rparr>"]
  by simp

text \<open>
  Claim C7 as stated fails: when \<^verbatim>\<open>gate_sync\<close> cannot be imported the application
  starts, the export, import and device-settings functions are None, and the three
  commands of the Sync menu do nothing.
\<close>

theorem sync_menu_without_gate_sync:
  "GateMiniCRMApp_init (load_gate_sync None) init_db = init_db
   \<and> export_changes_dialog (load_gate_sync None) = None
   \<and> import_pack_dialog (load_gate_sync None) = None
   \<and> init_device_settings_dialog (load_gate_sync None) = None
   \<and> menu_export_sync_pack (load_gate_sync None) init_db = init_db
   \<and> menu_import_sync_pack (load_gate_sync None) init_db = init_db
   \<and> menu_set_device (load_gate_sync None) init_db = init_db"
  by (simp add: load_gate_sync_def GateMiniCRMApp_init_def menu_set_device_def
      menu_export_sync_pack_def menu_import_sync_pack_def)

section \<open>The merge engine: rejected packs, skipped records, repeated imports\<close>

lemma watermarks_capture [simp]: "watermarks (capture r w S) = watermarks S"
  by (simp add: capture_def)

lemma store_capture [simp]: "store (capture r w S) = store S"
  by (simp add: capture_def)

lemma watermarks_apply_record: "watermarks (snd (apply_record r S)) = watermarks S"
  by (simp add: apply_record_def Let_def split: operation.splits option.splits)

lemma watermarks_merge_step: "watermarks (snd (merge_step r (rep, S))) = watermarks S"
proof -
  obtain b S' where a: "apply_record r S = (b, S')" by (cases "apply_record r S")
  with watermarks_apply_record [of r S] have "watermarks S' = watermarks S" by simp
  with a show ?thesis by (cases b) (simp_all add: merge_step_def)
qed

lemma watermarks_fold_merge_step:
  "watermarks (snd (fold merge_step rs (rep, S))) = watermarks S"
proof (induction rs arbitrary: rep S)
  case Nil
  show ?case by simp
next
  case (Cons r rs)
  obtain rep1 S1 where s: "merge_step r (rep, S) = (rep1, S1)" by (cases "merge_step r (rep, S)")
  with watermarks_merge_step [of r rep S] have "watermarks S1 = watermarks S" by simp
  with Cons.IH [of rep1 S1] s show ?case by simp
qed

lemma merge_step_duplicate: "duplicate S r \<Longrightarrow> merge_step r (rep, S) = (rep, S)"
  by (simp add: merge_step_def)

lemma fold_merge_step_duplicates:
  "list_all (duplicate S) rs \<Longrightarrow> fold merge_step rs (rep, S) = (rep, S)"
  by (induction rs) (simp_all add: merge_step_duplicate)

lemma valid_pack_count: "valid_pack P \<Longrightarrow> length (pack_records P) = record_count P"
  by (simp add: valid_pack_def)

lemma valid_pack_nth:
  assumes "valid_pack P" and "i < length (pack_records P)"
  shows "sequence (pack_records P ! i) = from_sequence P + i"
proof -
  from assms(1) have m: "map sequence (pack_records P) = [from_sequence P ..< Suc (to_sequence P)]"
    by (simp add: valid_pack_def)
  from assms(2) have "sequence (pack_records P ! i) = map sequence (pack_records P) ! i" by simp
  also from assms(2) have "i < length (map sequence (pack_records P))" by simp
  then have "map sequence (pack_records P) ! i = from_sequence P + i"
    unfolding m by (simp del: upt_Suc)
  finally show ?thesis .
qed

lemma valid_pack_step:
  assumes "valid_pack P" and "Suc i < length (pack_records P)"
  shows "sequence (pack_records P ! Suc i) = Suc (sequence (pack_records P ! i))"
  using valid_pack_nth [OF assms(1), of "Suc i"] valid_pack_nth [OF assms(1), of i] assms(2)
  by simp

lemma valid_pack_range:
  assumes "valid_pack P" and "r \<in> set (pack_records P)"
  shows "from_sequence P \<le> sequence r \<and> sequence r \<le> to_sequence P"
proof -
  from assms(1) have m: "map sequence (pack_records P) = [from_sequence P ..< Suc (to_sequence P)]"
    by (simp add: valid_pack_def)
  from assms(2) have "sequence r \<in> set (map sequence (pack_records P))" by simp
  then have "sequence r \<in> set [from_sequence P ..< Suc (to_sequence P)]" unfolding m .
  then show ?thesis by (simp del: upt_Suc)
qed

lemma valid_pack_cover:
  "valid_pack P \<Longrightarrow> length (pack_records P) = Suc (to_sequence P) - from_sequence P"
proof -
  assume "valid_pack P"
  then have "map sequence (pack_records P) = [from_sequence P ..< Suc (to_sequence P)]"
    by (simp add: valid_pack_def)
  then have "length (map sequence (pack_records P)) = length [from_sequence P ..< Suc (to_sequence P)]"
    by (rule arg_cong)
  then show ?thesis by (simp del: upt_Suc)
qed

lemma import_pack_invalid: "\<not> valid_pack P \<Longrightarrow> import_pack P S = (Inl MalformedPackError, S)"
  by (simp add: import_pack_def)

lemma import_pack_valid:
  assumes "valid_pack P"
  shows "import_pack P S =
    (Inr ((fst (fold merge_step (pack_records P) (empty_report, S)))
            \<lparr>new_watermark :=
               (case watermarks S (pack_device_id P) of
                  None \<Rightarrow> to_sequence P | Some w0 \<Rightarrow> max w0 (to_sequence P))\<rparr>),
     (snd (fold merge_step (pack_records P) (empty_report, S)))
       \<lparr>watermarks := (watermarks S)(pack_device_id P \<mapsto>
          (case watermarks S (pack_device_id P) of
             None \<Rightarrow> to_sequence P | Some w0 \<Rightarrow> max w0 (to_sequence P)))\<rparr>)"
proof -
  obtain rep S' where f: "fold merge_step (pack_records P) (empty_report, S) = (rep, S')"
    by (cases "fold merge_step (pack_records P) (empty_report, S)")
  with watermarks_fold_merge_step [of "pack_records P" empty_report S]
  have "watermarks S' = watermarks S" by simp
  with f assms show ?thesis by (simp add: import_pack_def Let_def)
qed

lemma import_pack_twice_valid:
  assumes v: "valid_pack P" and o: "from_one_device P"
  shows "\<exists>rep. import_pack P (snd (import_pack P S)) = (Inr rep, snd (import_pack P S))
           \<and> applied rep = 0"
proof -
  define w where "w = (case watermarks S (pack_device_id P) of
                         None \<Rightarrow> to_sequence P | Some w0 \<Rightarrow> max w0 (to_sequence P))"
  define S' where "S' = snd (fold merge_step (pack_records P) (empty_report, S))"
  define S1 where "S1 = S'\<lparr>watermarks := (watermarks S)(pack_device_id P \<mapsto> w)\<rparr>"
  have first: "snd (import_pack P S) = S1"
    by (simp add: import_pack_valid [OF v] S1_def S'_def w_def)
  have wm: "watermarks S1 (pack_device_id P) = Some w" by (simp add: S1_def)
  have le: "to_sequence P \<le> w" by (simp add: w_def split: option.splits)
  have dup: "list_all (duplicate S1) (pack_records P)"
    unfolding list_all_iff
  proof
    fix r assume r: "r \<in> set (pack_records P)"
    from o r have "device_id r = pack_device_id P" by (simp add: from_one_device_def list_all_iff)
    moreover from valid_pack_range [OF v r] le have "sequence r \<le> w" by simp
    ultimately show "duplicate S1 r" using wm by (simp add: duplicate_def)
  qed
  have fold1: "fold merge_step (pack_records P) (empty_report, S1) = (empty_report, S1)"
    by (rule fold_merge_step_duplicates [OF dup])
  have same: "S1\<lparr>watermarks := (watermarks S1)(pack_device_id P \<mapsto> w)\<rparr> = S1"
    using wm by (simp add: map_upd_triv)
  have "import_pack P S1 = (Inr (empty_report\<lparr>new_watermark := w\<rparr>), S1)"
    using wm le same by (simp add: import_pack_valid [OF v] fold1 max_absorb1)
  with first show ?thesis by (simp add: empty_report_def)
qed

text \<open>
  Claim C2. For every pack of one exporting device and every local state: importing
  the pack again into the state the first import left gives that same state, and the
  second import applies no record. When the pack passes validation the second import
  returns a MergeReport, whose applied count is zero; a pack that fails validation is
  rejected both times and the state never changes.
\<close>

theorem import_twice:
  "from_one_device P \<longrightarrow>
     snd (import_pack P (snd (import_pack P S))) = snd (import_pack P S)
     \<and> applied_count (fst (import_pack P (snd (import_pack P S)))) = 0
     \<and> (valid_pack P \<longrightarrow>
          (\<exists>rep. import_pack P (snd (import_pack P S)) = (Inr rep, snd (import_pack P S))
             \<and> applied rep = 0))"
proof (intro impI)
  assume o: "from_one_device P"
  show "snd (import_pack P (snd (import_pack P S))) = snd (import_pack P S)
     \<and> applied_count (fst (import_pack P (snd (import_pack P S)))) = 0
     \<and> (valid_pack P \<longrightarrow>
          (\<exists>rep. import_pack P (snd (import_pack P S)) = (Inr rep, snd (import_pack P S))
             \<and> applied rep = 0))"
  proof (cases "valid_pack P")
    case True
    from import_pack_twice_valid [OF True o, of S] obtain rep where
      "import_pack P (snd (import_pack P S)) = (Inr rep, snd (import_pack P S))"
      "applied rep = 0" by blast
    then show ?thesis by (simp add: applied_count_def)
  next
    case False
    then show ?thesis by (simp add: import_pack_invalid applied_count_def)
  qed
qed


text \<open>The definitions a concrete run of the merge engine unfolds.\<close>

lemmas run_defs = pack_of_def insert_row_def fresh_state_def valid_pack_def from_one_device_def
  duplicate_def fk_violation_def parent_table_def foreign_keys_def merge_step_def apply_record_def
  capture_def winners_def lww_merge_def stamp_def stamp_less_def empty_report_def import_pack_def
  applied_count_def field_value_def Let_def pack_A_def pack_A_swapped_def local_record_def
  local_insert_def local_update_def local_delete_def export_pack_def created_def received_def
  set_phone_def remove_contact_def contact_and_company_def got_contact_and_company_def
  A_sets_company_def B_adds_company_def B_sets_company_def Z_drops_company_def touches_def refs_def calm_def not_later_def
  no_new_insert_of_def ready_for_def holds_write_def upt_rec

theorem import_twice_witness:
  "from_one_device pack_A \<and> valid_pack pack_A
   \<and> applied_count (fst (import_pack pack_A (fresh_state ''B''))) = 1
   \<and> snd (import_pack pack_A (snd (import_pack pack_A (fresh_state ''B''))))
       = snd (import_pack pack_A (fresh_state ''B''))
   \<and> applied_count (fst (import_pack pack_A (snd (import_pack pack_A (fresh_state ''B''))))) = 0"
proof -
  have o: "from_one_device pack_A" by (simp add: run_defs)
  have v: "valid_pack pack_A" by (simp add: run_defs)
  have a: "applied_count (fst (import_pack pack_A (fresh_state ''B''))) = 1"
    by (simp add: run_defs)
  from import_twice [of pack_A "fresh_state ''B''"] o
  have "snd (import_pack pack_A (snd (import_pack pack_A (fresh_state ''B''))))
          = snd (import_pack pack_A (fresh_state ''B''))
        \<and> applied_count (fst (import_pack pack_A (snd (import_pack pack_A (fresh_state ''B''))))) = 0"
    by blast
  with o v a show ?thesis by blast
qed

lemma merge_step_fk:
  "\<not> duplicate S r \<Longrightarrow> fk_violation S r \<Longrightarrow>
     merge_step r (rep, S)
       = (rep\<lparr>fk_violations := fk_violations rep @ [(table_name r, row_key r)]\<rparr>, S)"
  by (simp add: merge_step_def)

lemma add_report_empty [simp]: "add_report a empty_report = a"
  by (simp add: add_report_def empty_report_def)

lemma add_report_assoc: "add_report (add_report a b) c = add_report a (add_report b c)"
  by (simp add: add_report_def)

lemma merge_step_report:
  "merge_step r (rep, S)
     = (add_report rep (fst (merge_step r (empty_report, S))), snd (merge_step r (empty_report, S)))"
  by (cases "apply_record r S"; cases "fst (apply_record r S)")
     (simp_all add: merge_step_def add_report_def empty_report_def)

lemma fold_merge_step_report:
  "fold merge_step rs (rep, S)
     = (add_report rep (fst (fold merge_step rs (empty_report, S))),
        snd (fold merge_step rs (empty_report, S)))"
proof (induction rs arbitrary: rep S)
  case Nil
  show ?case by simp
next
  case (Cons r rs)
  obtain rep1 S1 where s: "merge_step r (empty_report, S) = (rep1, S1)"
    by (cases "merge_step r (empty_report, S)")
  from merge_step_report [of r rep S] s
  have m: "merge_step r (rep, S) = (add_report rep rep1, S1)" by simp
  have a: "fold merge_step (r # rs) (rep, S)
      = (add_report (add_report rep rep1) (fst (fold merge_step rs (empty_report, S1))),
         snd (fold merge_step rs (empty_report, S1)))"
    using m Cons.IH [of "add_report rep rep1" S1] by simp
  have b: "fold merge_step (r # rs) (empty_report, S)
      = (add_report rep1 (fst (fold merge_step rs (empty_report, S1))),
         snd (fold merge_step rs (empty_report, S1)))"
    using s Cons.IH [of rep1 S1] by simp
  show ?case unfolding a b by (simp add: add_report_assoc)
qed

lemma duplicate_watermarks: "watermarks S' = watermarks S \<Longrightarrow> duplicate S' r = duplicate S r"
  by (simp add: duplicate_def)

lemma store_merge_step_other:
  assumes "(table_name r, row_key r) \<noteq> p"
  shows "store (snd (merge_step r (rep, S))) p = store S p"
  using assms
  by (auto simp: merge_step_def apply_record_def Let_def
      split: option.splits operation.splits if_splits prod.splits)

lemma store_fold_other:
  "list_all (\<lambda>r. \<not> touches t k r) rs \<Longrightarrow>
     store (snd (fold merge_step rs (rep, S))) (t, k) = store S (t, k)"
proof (induction rs arbitrary: rep S)
  case Nil
  show ?case by simp
next
  case (Cons r rs)
  obtain rep1 S1 where s: "merge_step r (rep, S) = (rep1, S1)" by (cases "merge_step r (rep, S)")
  from Cons.prems have "(table_name r, row_key r) \<noteq> (t, k)" and rest: "list_all (\<lambda>r. \<not> touches t k r) rs"
    by (auto simp: touches_def)
  from store_merge_step_other [OF this(1), of rep S] s have "store S1 (t, k) = store S (t, k)" by simp
  with Cons.IH [OF rest, of rep1 S1] s show ?case by simp
qed

lemma local_log_import_pack:
  "local_log (snd (import_pack P S)) =
     (if valid_pack P then local_log (snd (fold merge_step (pack_records P) (empty_report, S)))
      else local_log S)"
  by (simp add: import_pack_def Let_def split: prod.splits)

lemma store_import_pack:
  "store (snd (import_pack P S)) =
     (if valid_pack P then store (snd (fold merge_step (pack_records P) (empty_report, S)))
      else store S)"
  by (simp add: import_pack_def Let_def split: prod.splits)

lemma report_import_pack:
  "valid_pack P \<Longrightarrow> \<exists>w. fst (import_pack P S)
     = Inr ((fst (fold merge_step (pack_records P) (empty_report, S)))\<lparr>new_watermark := w\<rparr>)"
  by (simp add: import_pack_valid) blast

lemma fold_skip_fk:
  assumes nd: "\<not> duplicate S r"
    and fk: "fk_violation (snd (fold merge_step pre (empty_report, S))) r"
  shows "snd (fold merge_step (pre @ r # post) (empty_report, S))
           = snd (fold merge_step (pre @ post) (empty_report, S))"
    and "applied (fst (fold merge_step (pre @ r # post) (empty_report, S)))
           = applied (fst (fold merge_step (pre @ post) (empty_report, S)))"
    and "skipped_conflicts (fst (fold merge_step (pre @ r # post) (empty_report, S)))
           = skipped_conflicts (fst (fold merge_step (pre @ post) (empty_report, S)))"
    and "fk_violations (fst (fold merge_step (pre @ r # post) (empty_report, S)))
           = fk_violations (fst (fold merge_step pre (empty_report, S)))
             @ (table_name r, row_key r)
             # fk_violations (fst (fold merge_step post
                                      (empty_report, snd (fold merge_step pre (empty_report, S)))))"
proof -
  obtain rep0 S0 where p: "fold merge_step pre (empty_report, S) = (rep0, S0)"
    by (cases "fold merge_step pre (empty_report, S)")
  from watermarks_fold_merge_step [of pre empty_report S] p have "watermarks S0 = watermarks S"
    by simp
  from duplicate_watermarks [OF this] nd have nd0: "\<not> duplicate S0 r" by simp
  from fk p have fk0: "fk_violation S0 r" by simp
  define rep1 where "rep1 = rep0\<lparr>fk_violations := fk_violations rep0 @ [(table_name r, row_key r)]\<rparr>"
  from merge_step_fk [OF nd0 fk0, of rep0] have m: "merge_step r (rep0, S0) = (rep1, S0)"
    by (simp add: rep1_def)
  have a: "fold merge_step (pre @ r # post) (empty_report, S)
      = (add_report rep1 (fst (fold merge_step post (empty_report, S0))),
         snd (fold merge_step post (empty_report, S0)))"
    using p m fold_merge_step_report [of post rep1 S0] by simp
  have b: "fold merge_step (pre @ post) (empty_report, S)
      = (add_report rep0 (fst (fold merge_step post (empty_report, S0))),
         snd (fold merge_step post (empty_report, S0)))"
    using p fold_merge_step_report [of post rep0 S0] by simp
  show "snd (fold merge_step (pre @ r # post) (empty_report, S))
           = snd (fold merge_step (pre @ post) (empty_report, S))"
    unfolding a b by simp
  show "applied (fst (fold merge_step (pre @ r # post) (empty_report, S)))
           = applied (fst (fold merge_step (pre @ post) (empty_report, S)))"
    unfolding a b by (simp add: add_report_def rep1_def)
  show "skipped_conflicts (fst (fold merge_step (pre @ r # post) (empty_report, S)))
           = skipped_conflicts (fst (fold merge_step (pre @ post) (empty_report, S)))"
    unfolding a b by (simp add: add_report_def rep1_def)
  show "fk_violations (fst (fold merge_step (pre @ r # post) (empty_report, S)))
           = fk_violations (fst (fold merge_step pre (empty_report, S)))
             @ (table_name r, row_key r)
             # fk_violations (fst (fold merge_step post
                                      (empty_report, snd (fold merge_step pre (empty_report, S)))))"
    unfolding a by (simp add: add_report_def rep1_def p)
qed

lemma applied_fold_mono:
  "applied rep \<le> applied (fst (fold merge_step rs (rep, S)))"
  using fold_merge_step_report [of rs rep S] by (simp add: add_report_def)

lemma merge_step_new_insert:
  assumes "operation q = Insert" and "\<not> duplicate S q" and "\<not> fk_violation S q"
    and "store S (table_name q, row_key q) = None"
  shows "store (snd (merge_step q (rep, S))) (table_name q, row_key q)
           = Some (lww_merge Map.empty q)"
    and "applied (fst (merge_step q (rep, S))) = Suc (applied rep)"
  using assms by (simp_all add: merge_step_def apply_record_def Let_def)

lemma fold_new_insert:
  assumes i: "operation q = Insert" and nd: "\<not> duplicate S q"
    and fk: "\<not> fk_violation (snd (fold merge_step pre (empty_report, S))) q"
    and ab: "store S (table_name q, row_key q) = None"
    and un: "list_all (\<lambda>r. \<not> touches (table_name q) (row_key q) r) (pre @ post)"
  shows "store (snd (fold merge_step (pre @ q # post) (empty_report, S))) (table_name q, row_key q)
           = Some (lww_merge Map.empty q)"
    and "1 \<le> applied (fst (fold merge_step (pre @ q # post) (empty_report, S)))"
proof -
  obtain rep0 S0 where p: "fold merge_step pre (empty_report, S) = (rep0, S0)"
    by (cases "fold merge_step pre (empty_report, S)")
  obtain rep1 S1 where s: "merge_step q (rep0, S0) = (rep1, S1)"
    by (cases "merge_step q (rep0, S0)")
  from un have upre: "list_all (\<lambda>r. \<not> touches (table_name q) (row_key q) r) pre"
    and upost: "list_all (\<lambda>r. \<not> touches (table_name q) (row_key q) r) post" by simp_all
  from watermarks_fold_merge_step [of pre empty_report S] p have "watermarks S0 = watermarks S"
    by simp
  from duplicate_watermarks [OF this] nd have nd0: "\<not> duplicate S0 q" by simp
  from fk p have fk0: "\<not> fk_violation S0 q" by simp
  from store_fold_other [OF upre, of empty_report S] p ab
  have ab0: "store S0 (table_name q, row_key q) = None" by simp
  from merge_step_new_insert [OF i nd0 fk0 ab0, of rep0] s
  have st1: "store S1 (table_name q, row_key q) = Some (lww_merge Map.empty q)"
    and ap1: "applied rep1 = Suc (applied rep0)" by simp_all
  have f: "fold merge_step (pre @ q # post) (empty_report, S) = fold merge_step post (rep1, S1)"
    using p s by simp
  from store_fold_other [OF upost, of rep1 S1] st1 f
  show "store (snd (fold merge_step (pre @ q # post) (empty_report, S))) (table_name q, row_key q)
           = Some (lww_merge Map.empty q)" by simp
  from applied_fold_mono [of rep1 post S1] ap1 f
  show "1 \<le> applied (fst (fold merge_step (pre @ q # post) (empty_report, S)))" by simp
qed

lemma field_value_new_row:
  "store S (t, k) = Some (lww_merge Map.empty q) \<Longrightarrow> field_value S t k f = map_of (changed_fields q) f"
  by (simp add: field_value_def lww_merge_def split: option.splits)

lemma defect_invalid:
  assumes "length (pack_records P) \<noteq> record_count P
     \<or> (\<exists>i. Suc i < length (pack_records P)
            \<and> sequence (pack_records P ! Suc i) \<le> sequence (pack_records P ! i))
     \<or> (\<exists>i. Suc i < length (pack_records P)
            \<and> sequence (pack_records P ! Suc i) \<noteq> Suc (sequence (pack_records P ! i)))
     \<or> (\<exists>r \<in> set (pack_records P). sequence r < from_sequence P \<or> to_sequence P < sequence r)
     \<or> Suc (to_sequence P) < from_sequence P
     \<or> length (pack_records P) \<noteq> Suc (to_sequence P) - from_sequence P"
  shows "\<not> valid_pack P"
proof
  assume v: "valid_pack P"
  from assms consider
      (count) "length (pack_records P) \<noteq> record_count P"
    | (order) i where "Suc i < length (pack_records P)"
        "sequence (pack_records P ! Suc i) \<le> sequence (pack_records P ! i)"
    | (gap) i where "Suc i < length (pack_records P)"
        "sequence (pack_records P ! Suc i) \<noteq> Suc (sequence (pack_records P ! i))"
    | (range) r where "r \<in> set (pack_records P)"
        "sequence r < from_sequence P \<or> to_sequence P < sequence r"
    | (inverted) "Suc (to_sequence P) < from_sequence P"
    | (cover) "length (pack_records P) \<noteq> Suc (to_sequence P) - from_sequence P"
    by blast
  then show False
  proof cases
    case count
    with valid_pack_count [OF v] show False by simp
  next
    case order
    with valid_pack_step [OF v order(1)] show False by simp
  next
    case gap
    with valid_pack_step [OF v gap(1)] show False by simp
  next
    case range
    with valid_pack_range [OF v range(1)] show False by auto
  next
    case inverted
    with v show False by (simp add: valid_pack_def)
  next
    case cover
    with valid_pack_cover [OF v] show False by simp
  qed
qed

text \<open>
  Claim C6. An import that fails with MalformedPackError returns the state as it was
  and has applied no record; and a pack fails so when its line count differs from its
  record count, when a record is out of order, when there is a gap, when a sequence
  number lies outside the declared range, when the declared range is inverted, or when
  the lines do not cover it. In a pack that passes validation, a record that is short
  of a dependency when its turn comes is the only one skipped on its account: the
  import returns a report whose applied count and skipped conflicts are those of
  merging the records before and after it, whose list of foreign-key violations names
  the record between the violations before it and those after it, and the rows and the
  change log end as if the pack had been merged without the record. And an insert of a
  new row that has its dependencies is applied wherever it stands in such a pack, also
  after a skipped record: the import counts at least one applied record and the row
  holds the values of the insert.
\<close>

theorem malformed_or_missing_dependency:
  "(fst (import_pack P S) = Inl MalformedPackError \<longrightarrow>
      snd (import_pack P S) = S \<and> applied_count (fst (import_pack P S)) = 0)
   \<and> (length (pack_records P) \<noteq> record_count P
       \<or> (\<exists>i. Suc i < length (pack_records P)
              \<and> sequence (pack_records P ! Suc i) \<le> sequence (pack_records P ! i))
       \<or> (\<exists>i. Suc i < length (pack_records P)
              \<and> sequence (pack_records P ! Suc i) \<noteq> Suc (sequence (pack_records P ! i)))
       \<or> (\<exists>r \<in> set (pack_records P). sequence r < from_sequence P \<or> to_sequence P < sequence r)
       \<or> Suc (to_sequence P) < from_sequence P
       \<or> length (pack_records P) \<noteq> Suc (to_sequence P) - from_sequence P
      \<longrightarrow> import_pack P S = (Inl MalformedPackError, S))
   \<and> (valid_pack P1 \<and> pack_records P1 = pre @ r # post \<and> \<not> duplicate S1 r
       \<and> fk_violation (snd (fold merge_step pre (empty_report, S1))) r \<longrightarrow>
        (\<exists>rep. fst (import_pack P1 S1) = Inr rep
           \<and> applied rep = applied (fst (fold merge_step (pre @ post) (empty_report, S1)))
           \<and> skipped_conflicts rep
               = skipped_conflicts (fst (fold merge_step (pre @ post) (empty_report, S1)))
           \<and> fk_violations rep
               = fk_violations (fst (fold merge_step pre (empty_report, S1)))
                 @ (table_name r, row_key r)
                 # fk_violations (fst (fold merge_step post
                      (empty_report, snd (fold merge_step pre (empty_report, S1))))))
        \<and> store (snd (import_pack P1 S1))
            = store (snd (fold merge_step (pre @ post) (empty_report, S1)))
        \<and> local_log (snd (import_pack P1 S1))
            = local_log (snd (fold merge_step (pre @ post) (empty_report, S1))))
   \<and> (valid_pack P2 \<and> pack_records P2 = pre2 @ q # post2 \<and> operation q = Insert
       \<and> \<not> duplicate S2 q
       \<and> \<not> fk_violation (snd (fold merge_step pre2 (empty_report, S2))) q
       \<and> store S2 (table_name q, row_key q) = None
       \<and> list_all (\<lambda>x. \<not> touches (table_name q) (row_key q) x) (pre2 @ post2) \<longrightarrow>
        1 \<le> applied_count (fst (import_pack P2 S2))
        \<and> field_value (snd (import_pack P2 S2)) (table_name q) (row_key q) f
            = map_of (changed_fields q) f)"
proof (intro conjI impI)
  assume "fst (import_pack P S) = Inl MalformedPackError"
  then have "\<not> valid_pack P"
    by (auto simp: import_pack_def Let_def split: prod.splits)
  then have e: "import_pack P S = (Inl MalformedPackError, S)" by (rule import_pack_invalid)
  from e show "snd (import_pack P S) = S" by simp
  from e show "applied_count (fst (import_pack P S)) = 0" by (simp add: applied_count_def)
next
  assume "length (pack_records P) \<noteq> record_count P
       \<or> (\<exists>i. Suc i < length (pack_records P)
              \<and> sequence (pack_records P ! Suc i) \<le> sequence (pack_records P ! i))
       \<or> (\<exists>i. Suc i < length (pack_records P)
              \<and> sequence (pack_records P ! Suc i) \<noteq> Suc (sequence (pack_records P ! i)))
       \<or> (\<exists>r \<in> set (pack_records P). sequence r < from_sequence P \<or> to_sequence P < sequence r)
       \<or> Suc (to_sequence P) < from_sequence P
       \<or> length (pack_records P) \<noteq> Suc (to_sequence P) - from_sequence P"
  then have "\<not> valid_pack P" by (rule defect_invalid)
  then show "import_pack P S = (Inl MalformedPackError, S)" by (rule import_pack_invalid)
next
  assume a: "valid_pack P1 \<and> pack_records P1 = pre @ r # post \<and> \<not> duplicate S1 r
       \<and> fk_violation (snd (fold merge_step pre (empty_report, S1))) r"
  then have v: "valid_pack P1" and e: "pack_records P1 = pre @ r # post"
    and nd: "\<not> duplicate S1 r"
    and fk: "fk_violation (snd (fold merge_step pre (empty_report, S1))) r" by simp_all
  note k = fold_skip_fk [OF nd fk, of post]
  from report_import_pack [OF v, of S1] obtain w where
    "fst (import_pack P1 S1)
       = Inr ((fst (fold merge_step (pre @ r # post) (empty_report, S1)))\<lparr>new_watermark := w\<rparr>)"
    unfolding e by blast
  with k(2,3,4) show "\<exists>rep. fst (import_pack P1 S1) = Inr rep
           \<and> applied rep = applied (fst (fold merge_step (pre @ post) (empty_report, S1)))
           \<and> skipped_conflicts rep
               = skipped_conflicts (fst (fold merge_step (pre @ post) (empty_report, S1)))
           \<and> fk_violations rep
               = fk_violations (fst (fold merge_step pre (empty_report, S1)))
                 @ (table_name r, row_key r)
                 # fk_violations (fst (fold merge_step post
                      (empty_report, snd (fold merge_step pre (empty_report, S1)))))"
    by simp
  from v e k(1) show "store (snd (import_pack P1 S1))
            = store (snd (fold merge_step (pre @ post) (empty_report, S1)))"
    by (simp add: store_import_pack)
  from v e k(1) show "local_log (snd (import_pack P1 S1))
            = local_log (snd (fold merge_step (pre @ post) (empty_report, S1)))"
    by (simp add: local_log_import_pack)
next
  assume a: "valid_pack P2 \<and> pack_records P2 = pre2 @ q # post2 \<and> operation q = Insert
       \<and> \<not> duplicate S2 q
       \<and> \<not> fk_violation (snd (fold merge_step pre2 (empty_report, S2))) q
       \<and> store S2 (table_name q, row_key q) = None
       \<and> list_all (\<lambda>x. \<not> touches (table_name q) (row_key q) x) (pre2 @ post2)"
  then have v: "valid_pack P2" and e: "pack_records P2 = pre2 @ q # post2" by simp_all
  have k1: "store (snd (fold merge_step (pre2 @ q # post2) (empty_report, S2)))
              (table_name q, row_key q) = Some (lww_merge Map.empty q)"
    by (rule fold_new_insert(1)) (use a in simp_all)
  have k2: "1 \<le> applied (fst (fold merge_step (pre2 @ q # post2) (empty_report, S2)))"
    by (rule fold_new_insert(2)) (use a in simp_all)
  from report_import_pack [OF v, of S2] obtain w where
    "fst (import_pack P2 S2)
       = Inr ((fst (fold merge_step (pre2 @ q # post2) (empty_report, S2)))\<lparr>new_watermark := w\<rparr>)"
    unfolding e by blast
  with k2 show "1 \<le> applied_count (fst (import_pack P2 S2))" by (simp add: applied_count_def)
  from v e k1 have "store (snd (import_pack P2 S2)) (table_name q, row_key q)
      = Some (lww_merge Map.empty q)" by (simp add: store_import_pack)
  then show "field_value (snd (import_pack P2 S2)) (table_name q) (row_key q) f
            = map_of (changed_fields q) f" by (rule field_value_new_row)
qed


theorem malformed_or_missing_dependency_witness:
  "Suc 0 < length (pack_records pack_A_swapped)
   \<and> sequence (pack_records pack_A_swapped ! Suc 0) \<le> sequence (pack_records pack_A_swapped ! 0)
   \<and> import_pack pack_A_swapped (fresh_state ''B'') = (Inl MalformedPackError, fresh_state ''B'')
   \<and> Suc (to_sequence (pack_of ''A'' 9 3 [])) < from_sequence (pack_of ''A'' 9 3 [])
   \<and> import_pack (pack_of ''A'' 9 3 []) (fresh_state ''B'')
       = (Inl MalformedPackError, fresh_state ''B'')
   \<and> valid_pack pack_A
   \<and> pack_records pack_A
       = [] @ insert_row ''A'' 1 10 ''contacts'' ''k1''
                [(''company_id'', Some ''c9''), (''name'', Some ''Ann'')]
            # [insert_row ''A'' 2 11 ''companies'' ''c1'' [(''name'', Some ''Acme'')]]
   \<and> \<not> duplicate (fresh_state ''B'')
         (insert_row ''A'' 1 10 ''contacts'' ''k1''
            [(''company_id'', Some ''c9''), (''name'', Some ''Ann'')])
   \<and> fk_violation (snd (fold merge_step [] (empty_report, fresh_state ''B'')))
         (insert_row ''A'' 1 10 ''contacts'' ''k1''
            [(''company_id'', Some ''c9''), (''name'', Some ''Ann'')])
   \<and> fst (import_pack pack_A (fresh_state ''B''))
       = Inr \<lparr>applied = 1, skipped_conflicts = [], fk_violations = [(''contacts'', ''k1'')],
               new_watermark = 2\<rparr>
   \<and> store (snd (import_pack pack_A (fresh_state ''B'')))
       = store (snd (fold merge_step
                  ([] @ [insert_row ''A'' 2 11 ''companies'' ''c1'' [(''name'', Some ''Acme'')]])
                  (empty_report, fresh_state ''B'')))
   \<and> store (snd (import_pack pack_A (fresh_state ''B''))) (''contacts'', ''k1'') = None
   \<and> 1 \<le> applied_count (fst (import_pack pack_A (fresh_state ''B'')))
   \<and> field_value (snd (import_pack pack_A (fresh_state ''B''))) ''companies'' ''c1'' ''name''
       = Some (Some ''Acme'')"
proof -
  define k1 where "k1 = insert_row ''A'' 1 10 ''contacts'' ''k1''
                [(''company_id'', Some ''c9''), (''name'', Some ''Ann'')]"
  define c1 where "c1 = insert_row ''A'' 2 11 ''companies'' ''c1'' [(''name'', Some ''Acme'')]"
  have d: "Suc 0 < length (pack_records pack_A_swapped)
      \<and> sequence (pack_records pack_A_swapped ! Suc 0) \<le> sequence (pack_records pack_A_swapped ! 0)"
    by (simp add: run_defs)
  have i: "Suc (to_sequence (pack_of ''A'' 9 3 [])) < from_sequence (pack_of ''A'' 9 3 [])"
    by (simp add: pack_of_def)
  have v: "valid_pack pack_A" by (simp add: run_defs)
  have e1: "pack_records pack_A = [] @ k1 # [c1]" by (simp add: pack_A_def pack_of_def k1_def c1_def)
  have e2: "pack_records pack_A = [k1] @ c1 # []" by (simp add: pack_A_def pack_of_def k1_def c1_def)
  have f: "\<not> duplicate (fresh_state ''B'') k1
      \<and> fk_violation (snd (fold merge_step [] (empty_report, fresh_state ''B''))) k1"
    by (simp add: run_defs k1_def)
  have g: "operation c1 = Insert \<and> \<not> duplicate (fresh_state ''B'') c1
      \<and> \<not> fk_violation (snd (fold merge_step [k1] (empty_report, fresh_state ''B''))) c1
      \<and> store (fresh_state ''B'') (table_name c1, row_key c1) = None
      \<and> list_all (\<lambda>x. \<not> touches (table_name c1) (row_key c1) x) ([k1] @ [])"
    by (simp add: run_defs k1_def c1_def)
  have n: "table_name c1 = ''companies'' \<and> row_key c1 = ''c1''
      \<and> map_of (changed_fields c1) ''name'' = Some (Some ''Acme'')"
    by (simp add: insert_row_def c1_def)
  have r: "fst (import_pack pack_A (fresh_state ''B''))
      = Inr \<lparr>applied = 1, skipped_conflicts = [], fk_violations = [(''contacts'', ''k1'')],
              new_watermark = 2\<rparr>"
    by (simp add: run_defs)
  have s: "store (snd (import_pack pack_A (fresh_state ''B''))) (''contacts'', ''k1'') = None"
    by (simp add: run_defs)
  note T = malformed_or_missing_dependency [where P = pack_A_swapped and S = "fresh_state ''B''"
      and ?P1.0 = pack_A and ?S1.0 = "fresh_state ''B''" and pre = "[]" and r = k1
      and post = "[c1]" and ?P2.0 = pack_A and ?S2.0 = "fresh_state ''B''" and ?pre2.0 = "[k1]"
      and q = c1 and ?post2.0 = "[]" and f = "''name''"]
  note U = malformed_or_missing_dependency [where P = "pack_of ''A'' 9 3 []"
      and S = "fresh_state ''B''"]
  from T d have m: "import_pack pack_A_swapped (fresh_state ''B'')
      = (Inl MalformedPackError, fresh_state ''B'')" by blast
  from U i have m2: "import_pack (pack_of ''A'' 9 3 []) (fresh_state ''B'')
      = (Inl MalformedPackError, fresh_state ''B'')" by blast
  from T v e1 f have t: "store (snd (import_pack pack_A (fresh_state ''B'')))
      = store (snd (fold merge_step ([] @ [c1]) (empty_report, fresh_state ''B'')))" by blast
  from T v e2 g have "1 \<le> applied_count (fst (import_pack pack_A (fresh_state ''B'')))
      \<and> field_value (snd (import_pack pack_A (fresh_state ''B''))) (table_name c1) (row_key c1)
            ''name'' = map_of (changed_fields c1) ''name''" by blast
  with n have p: "1 \<le> applied_count (fst (import_pack pack_A (fresh_state ''B'')))
      \<and> field_value (snd (import_pack pack_A (fresh_state ''B''))) ''companies'' ''c1'' ''name''
          = Some (Some ''Acme'')" by simp
  from d m i m2 v e1 f r t s p show ?thesis unfolding k1_def c1_def by blast
qed
section \<open>The merge engine: deletes\<close>










section \<open>The merge engine: competing updates\<close>






























end
